theory Spec2Isabelle
  imports Complex_Main
begin

section \<open>JavaScript strings\<close>

text \<open>
  A JavaScript string is a sequence of UTF-16 code units; a code unit is modelled by its
  number. \<open>js\<close> turns an ASCII literal of the source into that sequence.
\<close>

type_synonym jsstring = "nat list"

definition js :: "string \<Rightarrow> jsstring" where
  "js s = map of_char s"

text \<open>
  \<open>String.prototype.toLowerCase\<close>. The ASCII capitals are mapped to their small letters.
  Of the code units beyond ASCII, only U+0130 and U+212A have a lower-case form that
  contains an ASCII letter; all other units beyond ASCII are mapped by JavaScript to units
  beyond ASCII again and are left as they are here, which changes nothing for a search of
  an ASCII text in the result.
\<close>

definition toLowerCase_unit :: "nat \<Rightarrow> nat list" where
  "toLowerCase_unit u =
     (if 0x41 \<le> u \<and> u \<le> 0x5A then [u + 0x20]
      else if u = 0x130 then [0x69, 0x307]
      else if u = 0x212A then [0x6B]
      else [u])"

definition toLowerCase :: "jsstring \<Rightarrow> jsstring" where
  "toLowerCase s = concat (map toLowerCase_unit s)"

text \<open>\<open>String.prototype.includes\<close>: the needle occurs as a contiguous part.\<close>

fun startsWith :: "jsstring \<Rightarrow> jsstring \<Rightarrow> bool" where
  "startsWith s [] = True"
| "startsWith [] (n # ns) = False"
| "startsWith (c # cs) (n # ns) = (c = n \<and> startsWith cs ns)"

fun js_includes :: "jsstring \<Rightarrow> jsstring \<Rightarrow> bool" where
  "js_includes [] needle = (needle = [])"
| "js_includes (c # cs) needle = (startsWith (c # cs) needle \<or> js_includes cs needle)"

text \<open>
  \<open>String.prototype.trim\<close> removes white space and line terminators from both ends:
  TAB, LF, VT, FF, CR, SP, NBSP, the Unicode space separators, LS, PS and U+FEFF.
\<close>

definition isWhiteSpace :: "nat \<Rightarrow> bool" where
  "isWhiteSpace u =
     (u \<in> {0x09, 0x0A, 0x0B, 0x0C, 0x0D, 0x20, 0xA0, 0x1680, 0x2028, 0x2029,
            0x202F, 0x205F, 0x3000, 0xFEFF} \<or> (0x2000 \<le> u \<and> u \<le> 0x200A))"

definition trim :: "jsstring \<Rightarrow> jsstring" where
  "trim s = rev (dropWhile isWhiteSpace (rev (dropWhile isWhiteSpace s)))"

text \<open>\<open>Array.prototype.join\<close> on an array of strings.\<close>

fun join :: "jsstring list \<Rightarrow> jsstring \<Rightarrow> jsstring" where
  "join [] sep = []"
| "join [x] sep = x"
| "join (x # y # ys) sep = x @ sep @ join (y # ys) sep"

text \<open>The decimal text of a natural number, as a template literal prints it.\<close>

fun String_nat :: "nat \<Rightarrow> jsstring" where
  "String_nat n =
     (if n < 10 then [0x30 + n] else String_nat (n div 10) @ [0x30 + n mod 10])"

declare String_nat.simps [simp del]

section \<open>JavaScript numbers\<close>

text \<open>
  A JavaScript number is an IEEE 754 double: not a number, an infinity, or a finite value,
  which is kept as the rational it stands for (the two zeros are not told apart: no
  operation below depends on the sign of a zero).
\<close>

datatype number = NaN | PosInfinity | NegInfinity | Finite rat

text \<open>The number of binary digits of a positive integer.\<close>

function bitLength :: "int \<Rightarrow> int" where
  "bitLength p = (if p \<le> 0 then 0 else 1 + bitLength (p div 2))"
  by pat_completeness auto
termination
  by (relation "measure nat") auto

declare bitLength.simps [simp del]

text \<open>
  The binary exponent of a positive rational: the \<open>e\<close> with \<open>2 ^ e \<le> a < 2 ^ (e + 1)\<close>.
\<close>

definition floor_log2 :: "rat \<Rightarrow> int" where
  "floor_log2 a =
     (let (p, q) = quotient_of a;
          d = bitLength p - bitLength q
      in if 2 powi d \<le> a then d else d - 1)"

text \<open>Rounding to the nearest integer, a tie going to the even one.\<close>

definition round_half_even :: "rat \<Rightarrow> int" where
  "round_half_even y =
     (let f = \<lfloor>y\<rfloor>; r = y - of_int f
      in if r < 1 / 2 then f else if 1 / 2 < r then f + 1 else if even f then f else f + 1)"

text \<open>
  Rounding a positive rational to 53 significant binary digits, or to a multiple of
  \<open>2 ^ -1074\<close> below the normal range. A result of \<open>2 ^ 1024\<close> or more is an infinity.
\<close>

definition round_magnitude :: "rat \<Rightarrow> rat" where
  "round_magnitude a =
     (let e = max (floor_log2 a) (- 1022);
          quantum = 2 powi (e - 52)
      in of_int (round_half_even (a / quantum)) * quantum)"

definition to_double :: "rat \<Rightarrow> number" where
  "to_double x =
     (if x = 0 then Finite 0
      else
        let r = round_magnitude \<bar>x\<bar>
        in if 2 powi 1024 \<le> r then (if 0 < x then PosInfinity else NegInfinity)
           else Finite (if 0 < x then r else - r))"

text \<open>The operators \<open>+\<close>, unary and binary \<open>-\<close>, \<open>Math.abs\<close> and \<open><\<close> on numbers.\<close>

fun js_add :: "number \<Rightarrow> number \<Rightarrow> number" where
  "js_add NaN b = NaN"
| "js_add a NaN = NaN"
| "js_add PosInfinity NegInfinity = NaN"
| "js_add NegInfinity PosInfinity = NaN"
| "js_add PosInfinity b = PosInfinity"
| "js_add NegInfinity b = NegInfinity"
| "js_add a PosInfinity = PosInfinity"
| "js_add a NegInfinity = NegInfinity"
| "js_add (Finite a) (Finite b) = to_double (a + b)"

fun js_negate :: "number \<Rightarrow> number" where
  "js_negate NaN = NaN"
| "js_negate PosInfinity = NegInfinity"
| "js_negate NegInfinity = PosInfinity"
| "js_negate (Finite a) = Finite (- a)"

definition js_subtract :: "number \<Rightarrow> number \<Rightarrow> number" where
  "js_subtract a b = js_add a (js_negate b)"

fun Math_abs :: "number \<Rightarrow> number" where
  "Math_abs NaN = NaN"
| "Math_abs PosInfinity = PosInfinity"
| "Math_abs NegInfinity = PosInfinity"
| "Math_abs (Finite a) = Finite \<bar>a\<bar>"

fun js_less :: "number \<Rightarrow> number \<Rightarrow> bool" where
  "js_less NaN b = False"
| "js_less a NaN = False"
| "js_less PosInfinity b = False"
| "js_less a NegInfinity = False"
| "js_less NegInfinity b = True"
| "js_less a PosInfinity = True"
| "js_less (Finite a) (Finite b) = (a < b)"

text \<open>
  \<open>Number.parseFloat\<close> on the text of a decimal: the double nearest to the value the
  text denotes. A numeric literal of the source, such as \<open>0.06\<close>, is the double
  nearest to it as well.
\<close>

definition parseFloat :: "rat \<Rightarrow> number" where
  "parseFloat d = to_double d"

section \<open>Data model (lib/types)\<close>

text \<open>
  The backend sends every decimal as a string. A decimal field is modelled by the rational
  number its text denotes; the frontend turns it into a number with \<open>parseFloat\<close>.
\<close>

type_synonym decimal = rat

record Item =
  name :: jsstring
  price :: decimal
  quantity :: decimal

record Totals =
  subtotal :: decimal
  tax_total :: decimal
  tip_total :: decimal
  fees_total :: decimal
  grand_total :: decimal

record AssignmentShare =
  share_participant :: jsstring
  share_fraction :: decimal

record ItemAssignment =
  item_index :: nat
  shares :: "AssignmentShare list"

record ParticipantCost =
  participant :: jsstring
  cost_subtotal :: decimal
  tax_share :: decimal
  tip_share :: decimal
  fees_share :: decimal
  total_owed :: decimal

record ReceiptState =
  thread_id :: jsstring
  items :: "Item list"
  participants :: "jsstring list"
  assignments :: "ItemAssignment list"
  totals :: "Totals option"
  pending_questions :: "jsstring list"
  final_costs :: "ParticipantCost list option"

datatype AppStep = Upload | Review | Results

section \<open>Quality gate (app/page.tsx, isReceiptTooPoor)\<close>

definition vision_model_failed :: "jsstring \<Rightarrow> bool" where
  "vision_model_failed q = js_includes (toLowerCase q) (js ''vision model failed'')"

definition low_confidence_flag :: "jsstring \<Rightarrow> bool" where
  "low_confidence_flag q = js_includes (toLowerCase q) (js ''confidence'')"

definition flagCount :: "jsstring list \<Rightarrow> nat" where
  "flagCount qs = length (filter low_confidence_flag qs)"

text \<open>
  The quotient of the two counts is a JavaScript number. Both counts are array lengths
  (below \<open>2 ^ 32\<close>), so the rounded quotient is at least \<open>0.5\<close> exactly when the exact
  quotient is; the comparison is therefore taken on the exact quotient.
\<close>

definition isReceiptTooPoor :: "ReceiptState \<Rightarrow> bool" where
  "isReceiptTooPoor s =
     (if length (pending_questions s) = 1 \<and> vision_model_failed (pending_questions s ! 0)
      then True
      else if length (items s) = 0 then True
      else
        let totalFields = length (items s) * 3;
            flags = flagCount (pending_questions s)
        in totalFields > 0 \<and> (of_nat flags / of_nat totalFields :: rat) \<ge> 1 / 2)"

text \<open>
  The gate as the specification words it: \<open>evaluate(items, pendingQuestions)\<close> with its
  three rejection rules in order. Which message "indicates extraction-process failure"
  and which "indicates a low-confidence field" is taken from the code.
\<close>

datatype RejectReason = ExtractionFailed | NoItemsFound | TooManyLowConfidenceFields

datatype GateResult = Accept | Reject RejectReason

definition hard_failure_signal :: "jsstring list \<Rightarrow> bool" where
  "hard_failure_signal diagnostics =
     (case diagnostics of [q] \<Rightarrow> vision_model_failed q | _ \<Rightarrow> False)"

definition spec_evaluate :: "Item list \<Rightarrow> jsstring list \<Rightarrow> GateResult" where
  "spec_evaluate its diagnostics =
     (if hard_failure_signal diagnostics then Reject ExtractionFailed
      else if length its = 0 then Reject NoItemsFound
      else if length its * 3 > 0
              \<and> (of_nat (flagCount diagnostics) / of_nat (length its * 3) :: rat) \<ge> 1 / 2
      then Reject TooManyLowConfidenceFields
      else Accept)"

section \<open>The page's state and its handlers (app/page.tsx, Home)\<close>

record AppState =
  step :: AppStep
  loading :: bool
  error :: "jsstring option"
  state :: "ReceiptState option"
  clarification :: "jsstring option"
  attempts :: nat

text \<open>The six \<open>useState\<close> cells with their initial values.\<close>

definition initial :: AppState where
  "initial = \<lparr>step = Upload, loading = False, error = None, state = None,
              clarification = None, attempts = 0\<rparr>"

definition MAX_INTERVIEW_ATTEMPTS :: nat where
  "MAX_INTERVIEW_ATTEMPTS = 3"

text \<open>
  What an awaited call of the API client gives back: the \<open>state\<close> of the response, or a
  thrown value, which is an \<open>Error\<close> with its message or anything else.
\<close>

datatype thrown = ErrorObject jsstring | OtherValue

datatype response = Resolved ReceiptState | Threw thrown

definition msg_receipt_not_clear :: jsstring where
  "msg_receipt_not_clear =
     js ''The receipt image wasn'' @ [0x2019]
     @ js ''t clear enough to extract items reliably. Please upload a higher-quality photo.''"

definition msg_not_enough_information :: jsstring where
  "msg_not_enough_information =
     js ''Not enough information was provided to split the bill accurately. Please try again.''"

definition msg_split_went_wrong :: jsstring where
  "msg_split_went_wrong =
     js ''Something went wrong computing the split. Please try describing the assignments again.''"

text \<open>
  The handlers are asynchronous, and each is modelled as one step from its call to its end,
  with the response of the backend as an argument. While a request is pending, \<open>loading\<close>
  is true and the page offers no enabled control (the upload step is not rendered, both
  buttons of the review step are disabled), so no other handler runs in between and the
  values a handler has captured (\<open>state\<close>, \<open>attempts\<close>) are the current ones.
\<close>

definition handleUpload :: "response \<Rightarrow> AppState \<Rightarrow> AppState" where
  "handleUpload res st =
     (let st1 = st\<lparr>loading := True, error := None\<rparr> in
      case res of
        Resolved s \<Rightarrow>
          if isReceiptTooPoor s
          then st1\<lparr>error := Some msg_receipt_not_clear, loading := False\<rparr>
          else st1\<lparr>state := Some s, step := Review, loading := False\<rparr>
      | Threw err \<Rightarrow>
          let msg = (case err of ErrorObject m \<Rightarrow> m | OtherValue \<Rightarrow> js ''Upload failed'')
          in st1\<lparr>error := Some msg, loading := False\<rparr>)"

definition attempt_note :: "nat \<Rightarrow> jsstring" where
  "attempt_note k =
     js ''(Attempt '' @ String_nat k @ js '' of '' @ String_nat MAX_INTERVIEW_ATTEMPTS @ js '')''"

definition handleFailedAttempt :: "jsstring \<Rightarrow> AppState \<Rightarrow> AppState" where
  "handleFailedAttempt message st =
     (let nextAttempt = attempts st + 1;
          st1 = st\<lparr>attempts := nextAttempt\<rparr>
      in if nextAttempt \<ge> MAX_INTERVIEW_ATTEMPTS
         then st1\<lparr>step := Upload, error := Some msg_not_enough_information, state := None,
                  clarification := None, attempts := 0\<rparr>
         else st1\<lparr>clarification := Some (message @ js [CHR 0x0A, CHR 0x0A] @ attempt_note nextAttempt)\<rparr>)"

definition has_final_costs :: "ReceiptState \<Rightarrow> bool" where
  "has_final_costs s = (case final_costs s of None \<Rightarrow> False | Some fc \<Rightarrow> length fc > 0)"

definition handleInterview :: "jsstring \<Rightarrow> response \<Rightarrow> AppState \<Rightarrow> AppState" where
  "handleInterview text res st =
     (case state st of
        None \<Rightarrow> st
      | Some current \<Rightarrow>
          let st1 = st\<lparr>loading := True, clarification := None\<rparr>;
              st2 =
                (case res of
                   Resolved s \<Rightarrow>
                     let st' = st1\<lparr>state := Some s\<rparr> in
                     if length (pending_questions s) > 0
                     then handleFailedAttempt
                            (join (pending_questions s) (js [CHR 0x0A, CHR 0x0A])) st'
                     else if has_final_costs s then st'\<lparr>step := Results\<rparr>
                     else handleFailedAttempt msg_split_went_wrong st'
                 | Threw err \<Rightarrow>
                     let msg = (case err of ErrorObject m \<Rightarrow> m
                                | OtherValue \<Rightarrow> js ''Submission failed'')
                     in handleFailedAttempt
                          (js ''Error: '' @ msg @ js ''. Please try again.'') st1)
          in st2\<lparr>loading := False\<rparr>)"

definition handleStartOver :: "AppState \<Rightarrow> AppState" where
  "handleStartOver st =
     st\<lparr>step := Upload, loading := False, error := None, state := None,
        clarification := None, attempts := 0\<rparr>"

section \<open>The review step's submit button (components/ReviewStep)\<close>

text \<open>\<open>!trimmed\<close> holds exactly for the empty string.\<close>

definition handleSubmit :: "jsstring \<Rightarrow> (jsstring \<Rightarrow> 'a \<Rightarrow> 'a) \<Rightarrow> 'a \<Rightarrow> 'a" where
  "handleSubmit text onSubmit st =
     (let trimmed = trim text in if trimmed = [] then st else onSubmit trimmed st)"

section \<open>What the page offers in each phase (Home's render)\<close>

text \<open>
  An event is a call of one of the callbacks the rendered step offers, together with what
  the backend will answer. The upload step is rendered in phase \<open>upload\<close> while not
  loading; the review step in phase \<open>review\<close> with a state, its submit button disabled
  while loading or while the text is blank, its cancel button disabled while loading; the
  results step in phase \<open>results\<close> when the state has final costs.
\<close>

datatype event =
    UploadFile response
  | SubmitText jsstring response
  | CancelReview
  | StartOver

fun enabled :: "AppState \<Rightarrow> event \<Rightarrow> bool" where
  "enabled st (UploadFile res) = (step st = Upload \<and> \<not> loading st)"
| "enabled st (SubmitText text res) =
     (step st = Review \<and> state st \<noteq> None \<and> \<not> (loading st \<or> trim text = []))"
| "enabled st CancelReview = (step st = Review \<and> state st \<noteq> None \<and> \<not> loading st)"
| "enabled st StartOver =
     (step st = Results \<and> (case state st of None \<Rightarrow> False | Some s \<Rightarrow> final_costs s \<noteq> None))"

fun fire :: "AppState \<Rightarrow> event \<Rightarrow> AppState" where
  "fire st (UploadFile res) = handleUpload res st"
| "fire st (SubmitText text res) = handleSubmit text (\<lambda>t. handleInterview t res) st"
| "fire st CancelReview = handleStartOver st"
| "fire st StartOver = handleStartOver st"

text \<open>A run of the page: \<open>None\<close> when an event is not offered in the state it meets.\<close>

fun run :: "AppState \<Rightarrow> event list \<Rightarrow> AppState option" where
  "run st [] = Some st"
| "run st (ev # evs) = (if enabled st ev then run (fire st ev) evs else None)"

section \<open>The results step (components/ResultsStep)\<close>

text \<open>
  What the component shows: a card for each participant, the sum of all shares and, when
  the totals are there, the receipt total and the line that says whether the totals match
  or by how much they differ. The sum is the \<open>reduce\<close> over the costs, from the left,
  starting at 0. The texts the amounts are printed as are not modelled.
\<close>

datatype Reconciliation = TotalsMatch | TotalsDiffer number

record ResultsView =
  cards :: "ParticipantCost list"
  sum_of_all_shares :: number
  receipt_total :: "number option"
  validation :: "Reconciliation option"

definition grandTotal :: "ParticipantCost list \<Rightarrow> number" where
  "grandTotal costs = foldl (\<lambda>sum c. js_add sum (parseFloat (total_owed c))) (Finite 0) costs"

definition ResultsStep :: "ParticipantCost list \<Rightarrow> Totals option \<Rightarrow> ResultsView" where
  "ResultsStep costs tot =
     \<lparr>cards = costs,
      sum_of_all_shares = grandTotal costs,
      receipt_total = map_option (\<lambda>t. parseFloat (grand_total t)) tot,
      validation =
        map_option
          (\<lambda>t. let difference =
                   Math_abs (js_subtract (grandTotal costs) (parseFloat (grand_total t)))
               in if js_less difference (to_double (6 / 100)) then TotalsMatch
                  else TotalsDiffer difference)
          tot\<rparr>"

section \<open>The relational schema (CREATE TABLE statements)\<close>

text \<open>
  A value given for a column in an \<open>INSERT\<close>: left out (the column's default applies, which
  is \<open>NULL\<close> when none is declared), \<open>NULL\<close>, or a value.
\<close>

datatype 'a column_value = Sql_default | Sql_null | Sql_value 'a

datatype sql_error =
    NotNullViolation string
  | CheckViolation string
  | UniqueViolation string
  | ForeignKeyViolation string
  | NumericFieldOverflow string

definition and_then :: "sql_error + 'a \<Rightarrow> ('a \<Rightarrow> sql_error + 'b) \<Rightarrow> sql_error + 'b" where
  "and_then m f = (case m of Inl e \<Rightarrow> Inl e | Inr a \<Rightarrow> f a)"

definition not_null :: "string \<Rightarrow> 'a option \<Rightarrow> 'a column_value \<Rightarrow> sql_error + 'a" where
  "not_null col dflt v =
     (case v of
        Sql_value a \<Rightarrow> Inr a
      | Sql_null \<Rightarrow> Inl (NotNullViolation col)
      | Sql_default \<Rightarrow> (case dflt of None \<Rightarrow> Inl (NotNullViolation col) | Some a \<Rightarrow> Inr a))"

text \<open>
  \<open>NUMERIC(p, s)\<close>: a value is rounded to \<open>s\<close> decimal places, ties away from zero, and must
  then have at most \<open>p\<close> digits.
\<close>

definition round_half_away :: "rat \<Rightarrow> int" where
  "round_half_away x = (if 0 \<le> x then \<lfloor>x + 1 / 2\<rfloor> else - \<lfloor>- x + 1 / 2\<rfloor>)"

definition numeric :: "nat \<Rightarrow> nat \<Rightarrow> string \<Rightarrow> rat \<Rightarrow> sql_error + rat" where
  "numeric p s col v =
     (let n = round_half_away (v * 10 ^ s)
      in if \<bar>n\<bar> \<ge> 10 ^ p then Inl (NumericFieldOverflow col) else Inr (of_int n / 10 ^ s))"

definition check :: "string \<Rightarrow> bool \<Rightarrow> sql_error + unit" where
  "check constraint_name holds = (if holds then Inr () else Inl (CheckViolation constraint_name))"

record receipts_row =
  receipts_id :: jsstring
  receipts_subtotal :: rat
  receipts_tax_total :: rat
  receipts_tip_total :: rat
  receipts_fees_total :: rat
  receipts_grand_total :: rat
  receipts_created_at :: nat

record participants_row =
  participants_id :: nat
  participants_receipt_id :: jsstring
  participants_name :: jsstring
  participants_created_at :: nat

record receipt_items_row =
  receipt_items_id :: nat
  receipt_items_receipt_id :: jsstring
  receipt_items_name :: jsstring
  receipt_items_quantity :: rat
  receipt_items_unit_price :: rat
  receipt_items_line_total :: rat
  receipt_items_confidence :: "jsstring option"
  receipt_items_created_at :: nat

record assignments_row =
  assignments_item_id :: nat
  assignments_participant_id :: nat
  assignments_fraction :: rat

record database =
  receipts :: "receipts_row list"
  participants_table :: "participants_row list"
  receipt_items :: "receipt_items_row list"
  assignments_table :: "assignments_row list"

definition empty_database :: database where
  "empty_database = \<lparr>receipts = [], participants_table = [], receipt_items = [],
                     assignments_table = []\<rparr>"

text \<open>
  The statements that create rows. Their leading arguments stand for what \<open>NOW()\<close> and
  \<open>gen_random_uuid()\<close> give when the statement runs; the others are the column values in
  the order of the table's columns.
\<close>

datatype statement =
    InsertReceipt
      nat "jsstring column_value" "rat column_value" "rat column_value"
      "rat column_value" "rat column_value" "rat column_value" "nat column_value"
  | InsertParticipant
      nat nat "nat column_value" "jsstring column_value"
      "jsstring column_value" "nat column_value"
  | InsertItem
      nat nat "nat column_value" "jsstring column_value"
      "jsstring column_value" "rat column_value" "rat column_value" "rat column_value"
      "jsstring column_value" "nat column_value"
  | InsertAssignment "nat column_value" "nat column_value" "rat column_value"

definition nullable :: "'a option \<Rightarrow> 'a column_value \<Rightarrow> 'a option" where
  "nullable dflt v = (case v of Sql_value a \<Rightarrow> Some a | Sql_null \<Rightarrow> None | Sql_default \<Rightarrow> dflt)"

fun execute :: "statement \<Rightarrow> database \<Rightarrow> sql_error + database" where
  "execute (InsertReceipt now vid vsub vtax vtip vfees vgrand vcreated) db =
     and_then (not_null ''id'' None vid) (\<lambda>rid.
     and_then (and_then (not_null ''subtotal'' None vsub) (numeric 12 2 ''subtotal'')) (\<lambda>sub.
     and_then (and_then (not_null ''tax_total'' (Some 0) vtax) (numeric 12 2 ''tax_total'')) (\<lambda>tax.
     and_then (and_then (not_null ''tip_total'' (Some 0) vtip) (numeric 12 2 ''tip_total'')) (\<lambda>tip.
     and_then (and_then (not_null ''fees_total'' (Some 0) vfees) (numeric 12 2 ''fees_total'')) (\<lambda>fees.
     and_then (and_then (not_null ''grand_total'' None vgrand) (numeric 12 2 ''grand_total'')) (\<lambda>grand.
     and_then (not_null ''created_at'' (Some now) vcreated) (\<lambda>created.
     and_then (check ''receipts_subtotal_check'' (sub \<ge> 0)) (\<lambda>_.
     and_then (check ''receipts_tax_total_check'' (tax \<ge> 0)) (\<lambda>_.
     and_then (check ''receipts_tip_total_check'' (tip \<ge> 0)) (\<lambda>_.
     and_then (check ''receipts_fees_total_check'' (fees \<ge> 0)) (\<lambda>_.
     and_then (check ''receipts_grand_total_check'' (grand \<ge> 0)) (\<lambda>_.
     and_then (check ''receipts_total_consistency'' (grand = sub + tax + tip + fees)) (\<lambda>_.
     if rid \<in> receipts_id ` set (receipts db) then Inl (UniqueViolation ''receipts_pkey'')
     else Inr (db\<lparr>receipts := receipts db @
            [\<lparr>receipts_id = rid, receipts_subtotal = sub, receipts_tax_total = tax,
              receipts_tip_total = tip, receipts_fees_total = fees,
              receipts_grand_total = grand, receipts_created_at = created\<rparr>]\<rparr>))))))))))))))"
| "execute (InsertParticipant now uuid vid vreceipt vname vcreated) db =
     and_then (not_null ''id'' (Some uuid) vid) (\<lambda>pid.
     and_then (not_null ''receipt_id'' None vreceipt) (\<lambda>rid.
     and_then (not_null ''name'' None vname) (\<lambda>nm.
     and_then (not_null ''created_at'' (Some now) vcreated) (\<lambda>created.
     if pid \<in> participants_id ` set (participants_table db)
     then Inl (UniqueViolation ''participants_pkey'')
     else if (rid, nm) \<in> (\<lambda>r. (participants_receipt_id r, participants_name r))
                            ` set (participants_table db)
     then Inl (UniqueViolation ''participants_unique_per_receipt'')
     else if rid \<notin> receipts_id ` set (receipts db)
     then Inl (ForeignKeyViolation ''participants_receipt_id_fkey'')
     else Inr (db\<lparr>participants_table := participants_table db @
            [\<lparr>participants_id = pid, participants_receipt_id = rid, participants_name = nm,
              participants_created_at = created\<rparr>]\<rparr>)))))"
| "execute (InsertItem now uuid vid vreceipt vname vqty vprice vline vconf vcreated) db =
     and_then (not_null ''id'' (Some uuid) vid) (\<lambda>iid.
     and_then (not_null ''receipt_id'' None vreceipt) (\<lambda>rid.
     and_then (not_null ''name'' None vname) (\<lambda>nm.
     and_then (and_then (not_null ''quantity'' None vqty) (numeric 10 3 ''quantity'')) (\<lambda>qty.
     and_then (and_then (not_null ''unit_price'' None vprice) (numeric 12 2 ''unit_price'')) (\<lambda>unit_price.
     and_then (and_then (not_null ''line_total'' None vline) (numeric 12 2 ''line_total'')) (\<lambda>line.
     and_then (not_null ''created_at'' (Some now) vcreated) (\<lambda>created.
     and_then (check ''receipt_items_quantity_check'' (qty > 0)) (\<lambda>_.
     and_then (check ''receipt_items_unit_price_check'' (unit_price \<ge> 0)) (\<lambda>_.
     and_then (check ''receipt_items_line_total_check'' (line \<ge> 0)) (\<lambda>_.
     if iid \<in> receipt_items_id ` set (receipt_items db)
     then Inl (UniqueViolation ''receipt_items_pkey'')
     else if rid \<notin> receipts_id ` set (receipts db)
     then Inl (ForeignKeyViolation ''receipt_items_receipt_id_fkey'')
     else Inr (db\<lparr>receipt_items := receipt_items db @
            [\<lparr>receipt_items_id = iid, receipt_items_receipt_id = rid, receipt_items_name = nm,
              receipt_items_quantity = qty, receipt_items_unit_price = unit_price,
              receipt_items_line_total = line, receipt_items_confidence = nullable None vconf,
              receipt_items_created_at = created\<rparr>]\<rparr>)))))))))))"
| "execute (InsertAssignment vitem vparticipant vfraction) db =
     and_then (not_null ''item_id'' None vitem) (\<lambda>iid.
     and_then (not_null ''participant_id'' None vparticipant) (\<lambda>pid.
     and_then (and_then (not_null ''fraction'' None vfraction) (numeric 6 5 ''fraction'')) (\<lambda>fraction.
     and_then (check ''assignments_fraction_check'' (fraction \<ge> 0 \<and> fraction \<le> 1)) (\<lambda>_.
     if (iid, pid) \<in> (\<lambda>r. (assignments_item_id r, assignments_participant_id r))
                        ` set (assignments_table db)
     then Inl (UniqueViolation ''assignments_pkey'')
     else if iid \<notin> receipt_items_id ` set (receipt_items db)
     then Inl (ForeignKeyViolation ''assignments_item_id_fkey'')
     else if pid \<notin> participants_id ` set (participants_table db)
     then Inl (ForeignKeyViolation ''assignments_participant_id_fkey'')
     else Inr (db\<lparr>assignments_table := assignments_table db @
            [\<lparr>assignments_item_id = iid, assignments_participant_id = pid,
              assignments_fraction = fraction\<rparr>]\<rparr>)))))"

text \<open>
  A script of statements against the database; a statement that fails changes nothing.
\<close>

fun execute_all :: "database \<Rightarrow> statement list \<Rightarrow> database" where
  "execute_all db [] = db"
| "execute_all db (stmt # stmts) =
     execute_all (case execute stmt db of Inl e \<Rightarrow> db | Inr db' \<Rightarrow> db') stmts"

section \<open>Auxiliary notions for the properties\<close>

text \<open>
  A round fails when the backend asks questions, returns no final costs, or the call
  throws: the three places where \<open>handleInterview\<close> calls \<open>handleFailedAttempt\<close>.
\<close>

definition failed_round :: "response \<Rightarrow> bool" where
  "failed_round res =
     (case res of
        Resolved s \<Rightarrow> length (pending_questions s) > 0 \<or> \<not> has_final_costs s
      | Threw err \<Rightarrow> True)"

text \<open>What holds of the page between two events.\<close>

definition page_invariant :: "AppState \<Rightarrow> bool" where
  "page_invariant st =
     (\<not> loading st \<and> attempts st < MAX_INTERVIEW_ATTEMPTS \<and>
      (case step st of
         Upload \<Rightarrow> attempts st = 0 \<and> state st = None \<and> clarification st = None
       | Review \<Rightarrow> state st \<noteq> None
       | Results \<Rightarrow> (case state st of None \<Rightarrow> False | Some s \<Rightarrow> has_final_costs s)))"

text \<open>The receipt, the answers and the rows used as concrete inputs below.\<close>

definition burger :: Item where
  "burger = \<lparr>name = js ''Burger'', price = 12, quantity = 1\<rparr>"

definition pizza :: Item where
  "pizza = \<lparr>name = js ''Pizza'', price = 18, quantity = 1\<rparr>"

definition scenario_totals :: Totals where
  "scenario_totals = \<lparr>subtotal = 30, tax_total = 24 / 10, tip_total = 6, fees_total = 0,
                       grand_total = 384 / 10\<rparr>"

definition low_confidence_question :: jsstring where
  "low_confidence_question = js ''Low confidence on the price of an item''"

definition who_question :: jsstring where
  "who_question = js ''Who had the pizza?''"

definition extraction :: "Item list \<Rightarrow> jsstring list \<Rightarrow> ReceiptState" where
  "extraction its qs =
     \<lparr>thread_id = js ''t1'', items = its, participants = [], assignments = [],
      totals = Some scenario_totals, pending_questions = qs, final_costs = None\<rparr>"

definition owes :: "string \<Rightarrow> rat \<Rightarrow> ParticipantCost" where
  "owes who amount =
     \<lparr>participant = js who, cost_subtotal = amount, tax_share = 0, tip_share = 0,
      fees_share = 0, total_owed = amount\<rparr>"

definition scenario_costs :: "ParticipantCost list" where
  "scenario_costs = [owes ''Alice'' (1536 / 100), owes ''Bob'' (1152 / 100),
                     owes ''Charlie'' (1152 / 100)]"

definition answer :: "jsstring list \<Rightarrow> ParticipantCost list option \<Rightarrow> ReceiptState" where
  "answer qs costs = (extraction [burger, pizza] [])\<lparr>pending_questions := qs, final_costs := costs\<rparr>"

definition good_extraction :: response where
  "good_extraction = Resolved (extraction [burger, pizza] [])"

definition question_round :: response where
  "question_round = Resolved (answer [who_question] None)"



definition text_alice :: jsstring where
  "text_alice = js ''Alice had the burger''"

definition reviewing :: AppState where
  "reviewing = handleUpload good_extraction initial"


definition two_failures :: AppState where
  "two_failures =
     handleInterview text_alice question_round
       (handleInterview text_alice question_round reviewing)"

definition costs_round :: response where
  "costs_round = Resolved (answer [] (Some scenario_costs))"

definition settled :: AppState where
  "settled = handleInterview text_alice costs_round reviewing"

definition questions_and_costs :: ReceiptState where
  "questions_and_costs = answer [who_question] (Some scenario_costs)"

definition blank_text :: jsstring where
  "blank_text = [0x20, 0x0A, 0x09, 0xA0]"

definition zero_totals :: Totals where
  "zero_totals = \<lparr>subtotal = 0, tax_total = 0, tip_total = 0, fees_total = 0, grand_total = 0\<rparr>"

definition schema_invariant :: "database \<Rightarrow> bool" where
  "schema_invariant db =
     ((\<forall>r \<in> set (receipts db).
         receipts_grand_total r =
           receipts_subtotal r + receipts_tax_total r + receipts_tip_total r + receipts_fees_total r)
      \<and> (\<forall>a \<in> set (assignments_table db).
           0 \<le> assignments_fraction a \<and> assignments_fraction a \<le> 1))"

definition scenario_script :: "statement list" where
  "scenario_script =
     [InsertReceipt 1 (Sql_value (js ''t1'')) (Sql_value 30) (Sql_value (24 / 10)) (Sql_value 6)
        Sql_default (Sql_value (384 / 10)) Sql_default,
      InsertReceipt 2 (Sql_value (js ''t2'')) (Sql_value 30) (Sql_value (24 / 10)) (Sql_value 6)
        Sql_default (Sql_value (3841 / 100)) Sql_default,
      InsertParticipant 3 100 Sql_default (Sql_value (js ''t1'')) (Sql_value (js ''Bob''))
        Sql_default,
      InsertItem 4 200 Sql_default (Sql_value (js ''t1'')) (Sql_value (js ''Pizza''))
        (Sql_value 1) (Sql_value 18) (Sql_value 18) Sql_null Sql_default,
      InsertAssignment (Sql_value 200) (Sql_value 100) (Sql_value (1 / 2)),
      InsertAssignment (Sql_value 200) (Sql_value 100) (Sql_value (3 / 2))]"

definition scenario_receipt :: receipts_row where
  "scenario_receipt =
     \<lparr>receipts_id = js ''t1'', receipts_subtotal = 30, receipts_tax_total = 24 / 10,
      receipts_tip_total = 6, receipts_fees_total = 0, receipts_grand_total = 384 / 10,
      receipts_created_at = 1\<rparr>"

definition scenario_assignment :: assignments_row where
  "scenario_assignment =
     \<lparr>assignments_item_id = 200, assignments_participant_id = 100,
      assignments_fraction = 1 / 2\<rparr>"

definition scenario_database :: database where
  "scenario_database =
     \<lparr>receipts = [scenario_receipt],
      participants_table =
        [\<lparr>participants_id = 100, participants_receipt_id = js ''t1'',
          participants_name = js ''Bob'', participants_created_at = 3\<rparr>],
      receipt_items =
        [\<lparr>receipt_items_id = 200, receipt_items_receipt_id = js ''t1'',
          receipt_items_name = js ''Pizza'', receipt_items_quantity = 1,
          receipt_items_unit_price = 18, receipt_items_line_total = 18,
          receipt_items_confidence = None, receipt_items_created_at = 4\<rparr>],
      assignments_table = [scenario_assignment]\<rparr>"

section \<open>Properties of the quality gate\<close>

lemma hard_failure_signal_iff:
  "hard_failure_signal qs = (length qs = 1 \<and> vision_model_failed (qs ! 0))"
  by (cases qs; cases "tl qs") (auto simp: hard_failure_signal_def)

lemma half_of_fields_iff:
  fixes f n :: nat
  assumes "0 < n"
  shows "((of_nat f / of_nat (n * 3) :: rat) \<ge> 1 / 2) = (3 * n \<le> 2 * f)"
proof -
  have pos: "(0::rat) < of_nat (n * 3)" using assms by simp
  have "((of_nat f / of_nat (n * 3) :: rat) \<ge> 1 / 2) = ((of_nat (n * 3) :: rat) \<le> 2 * of_nat f)"
    using pos by (simp add: field_simps)
  also have "\<dots> = ((of_nat (n * 3) :: rat) \<le> of_nat (2 * f))" by simp
  also have "\<dots> = (n * 3 \<le> 2 * f)" by (simp only: of_nat_le_iff)
  finally show ?thesis by (simp add: mult.commute)
qed

lemma isReceiptTooPoor_cases:
  "isReceiptTooPoor s =
     (hard_failure_signal (pending_questions s) \<or> items s = []
      \<or> 3 * length (items s) \<le> 2 * flagCount (pending_questions s))"
proof (cases "items s = []")
  case True
  then show ?thesis by (simp add: isReceiptTooPoor_def)
next
  case False
  then have "0 < length (items s)" by simp
  from half_of_fields_iff [OF this] False show ?thesis
    by (auto simp: isReceiptTooPoor_def hard_failure_signal_iff Let_def)
qed

lemma spec_evaluate_cases:
  "(spec_evaluate its qs \<noteq> Accept) =
     (hard_failure_signal qs \<or> its = [] \<or> 3 * length its \<le> 2 * flagCount qs)"
proof (cases "its = []")
  case True
  then show ?thesis by (simp add: spec_evaluate_def)
next
  case False
  then have "0 < length its" by simp
  from half_of_fields_iff [OF this] False show ?thesis
    by (auto simp: spec_evaluate_def)
qed

text \<open>
  C1. The gate applies three rejection rules, the first that matches deciding: a single
  diagnostic that reports the failure of the extraction; no items; at least half of the
  \<open>3 * N\<close> field slots flagged as low confidence (exactly half rejects too). Otherwise
  it accepts. So the code rejects exactly when the specification's \<open>evaluate\<close> rejects,
  an extraction without items is always rejected, and so is one where the flags are at
  least half of the slots.
\<close>

theorem quality_gate_rules:
  "isReceiptTooPoor s = (spec_evaluate (items s) (pending_questions s) \<noteq> Accept)
   \<and> (hard_failure_signal (pending_questions s)
        \<longrightarrow> spec_evaluate (items s) (pending_questions s) = Reject ExtractionFailed)
   \<and> (length (items s) = 0 \<longrightarrow> isReceiptTooPoor s)
   \<and> (3 * length (items s) \<le> 2 * flagCount (pending_questions s) \<longrightarrow> isReceiptTooPoor s)
   \<and> (\<not> hard_failure_signal (pending_questions s) \<and> items s \<noteq> []
        \<and> 2 * flagCount (pending_questions s) < 3 * length (items s)
        \<longrightarrow> \<not> isReceiptTooPoor s)"
  by (auto simp: isReceiptTooPoor_cases spec_evaluate_cases)
    (simp add: spec_evaluate_def)

lemma toLowerCase_simps:
  "toLowerCase [] = []"
  "toLowerCase (u # us) = toLowerCase_unit u @ toLowerCase us"
  by (simp_all add: toLowerCase_def)

lemma low_confidence_question_flag: "low_confidence_flag low_confidence_question"
  by (simp add: low_confidence_flag_def low_confidence_question_def js_def toLowerCase_simps
      toLowerCase_unit_def)

lemma flagCount_replicate: "flagCount (replicate n low_confidence_question) = n"
  by (simp add: flagCount_def low_confidence_question_flag)

lemma vision_failure_example: "vision_model_failed (js ''Vision model failed: timeout'')"
  by (simp add: vision_model_failed_def js_def toLowerCase_simps toLowerCase_unit_def)

lemma low_confidence_question_no_failure: "\<not> vision_model_failed low_confidence_question"
  by (simp add: vision_model_failed_def low_confidence_question_def js_def toLowerCase_simps
      toLowerCase_unit_def)

theorem quality_gate_rules_witness:
  "isReceiptTooPoor (extraction [] [])
   \<and> spec_evaluate [burger] [js ''Vision model failed: timeout''] = Reject ExtractionFailed
   \<and> isReceiptTooPoor (extraction [burger] [js ''Vision model failed: timeout''])
   \<and> 3 * length (replicate 4 burger) \<le> 2 * flagCount (replicate 6 low_confidence_question)
   \<and> isReceiptTooPoor (extraction (replicate 4 burger) (replicate 6 low_confidence_question))
   \<and> 2 * flagCount (replicate 3 low_confidence_question) < 3 * length (replicate 4 burger)
   \<and> \<not> isReceiptTooPoor (extraction (replicate 4 burger) (replicate 3 low_confidence_question))"
proof -
  let ?failed = "extraction [burger] [js ''Vision model failed: timeout'']"
  let ?six = "extraction (replicate 4 burger) (replicate 6 low_confidence_question)"
  let ?three = "extraction (replicate 4 burger) (replicate 3 low_confidence_question)"
  have "isReceiptTooPoor (extraction [] [])"
    using quality_gate_rules [of "extraction [] []", THEN conjunct2, THEN conjunct2, THEN conjunct1]
    by (simp add: extraction_def)
  moreover have "spec_evaluate [burger] [js ''Vision model failed: timeout''] = Reject ExtractionFailed"
    using quality_gate_rules [of ?failed, THEN conjunct2, THEN conjunct1]
    by (simp add: extraction_def hard_failure_signal_iff vision_failure_example)
  moreover have "isReceiptTooPoor ?failed"
    using quality_gate_rules [of ?failed, THEN conjunct1]
    by (simp add: extraction_def spec_evaluate_def hard_failure_signal_iff vision_failure_example)
  moreover have six: "3 * length (replicate 4 burger) \<le> 2 * flagCount (replicate 6 low_confidence_question)"
    by (simp add: flagCount_replicate)
  moreover have "isReceiptTooPoor ?six"
    using quality_gate_rules [of ?six, THEN conjunct2, THEN conjunct2, THEN conjunct2, THEN conjunct1]
    by (simp add: extraction_def flagCount_replicate)
  moreover have three: "2 * flagCount (replicate 3 low_confidence_question) < 3 * length (replicate 4 burger)"
    by (simp add: flagCount_replicate)
  moreover have "\<not> isReceiptTooPoor ?three"
    using quality_gate_rules [of ?three, THEN conjunct2, THEN conjunct2, THEN conjunct2, THEN conjunct2]
    by (simp add: extraction_def flagCount_replicate hard_failure_signal_iff
        low_confidence_question_no_failure)
  ultimately show ?thesis by blast
qed

section \<open>Properties of the handlers\<close>

lemma attempt_note_eq: "attempt_note k = js ''(Attempt '' @ String_nat k @ js '' of 3)''"
  by (simp add: attempt_note_def MAX_INTERVIEW_ATTEMPTS_def js_def String_nat.simps)

lemma handleStartOver_initial: "handleStartOver st = initial"
  by (simp add: handleStartOver_def initial_def)

lemma handleFailedAttempt_exhausted:
  "MAX_INTERVIEW_ATTEMPTS \<le> attempts st + 1 \<Longrightarrow>
   handleFailedAttempt message st = st\<lparr>step := Upload, error := Some msg_not_enough_information,
     state := None, clarification := None, attempts := 0\<rparr>"
  by (simp add: handleFailedAttempt_def Let_def)

lemma handleFailedAttempt_retry:
  "attempts st + 1 < MAX_INTERVIEW_ATTEMPTS \<Longrightarrow>
   handleFailedAttempt message st = st\<lparr>attempts := attempts st + 1,
     clarification := Some (message @ js [CHR 0x0A, CHR 0x0A] @ attempt_note (attempts st + 1))\<rparr>"
  by (simp add: handleFailedAttempt_def Let_def)

lemma handleInterview_exhausted:
  assumes "state st = Some current" and "failed_round res"
    and "MAX_INTERVIEW_ATTEMPTS \<le> attempts st + 1"
  shows "handleInterview text res st = initial\<lparr>error := Some msg_not_enough_information\<rparr>"
  using assms
  by (cases res)
    (auto simp: handleInterview_def failed_round_def handleFailedAttempt_exhausted initial_def
      Let_def)

lemma handleInterview_questions:
  assumes "state st = Some current" and "pending_questions s \<noteq> []"
    and "attempts st + 1 < MAX_INTERVIEW_ATTEMPTS"
  shows "handleInterview text (Resolved s) st =
    st\<lparr>loading := False, state := Some s, attempts := attempts st + 1,
       clarification := Some (join (pending_questions s) (js [CHR 0x0A, CHR 0x0A])
         @ js [CHR 0x0A, CHR 0x0A] @ attempt_note (attempts st + 1))\<rparr>"
  using assms by (simp add: handleInterview_def handleFailedAttempt_retry Let_def)

lemma handleInterview_no_costs:
  assumes "state st = Some current" and "pending_questions s = []" and "\<not> has_final_costs s"
    and "attempts st + 1 < MAX_INTERVIEW_ATTEMPTS"
  shows "handleInterview text (Resolved s) st =
    st\<lparr>loading := False, state := Some s, attempts := attempts st + 1,
       clarification := Some (msg_split_went_wrong
         @ js [CHR 0x0A, CHR 0x0A] @ attempt_note (attempts st + 1))\<rparr>"
  using assms by (simp add: handleInterview_def handleFailedAttempt_retry Let_def)

lemma handleInterview_threw:
  assumes "state st = Some current" and "attempts st + 1 < MAX_INTERVIEW_ATTEMPTS"
  shows "handleInterview text (Threw err) st =
    st\<lparr>loading := False, attempts := attempts st + 1,
       clarification := Some (js ''Error: ''
         @ (case err of ErrorObject m \<Rightarrow> m | OtherValue \<Rightarrow> js ''Submission failed'')
         @ js ''. Please try again.''
         @ js [CHR 0x0A, CHR 0x0A] @ attempt_note (attempts st + 1))\<rparr>"
  using assms by (simp add: handleInterview_def handleFailedAttempt_retry Let_def)

lemma handleInterview_success:
  assumes "state st = Some current" and "pending_questions s = []" and "has_final_costs s"
  shows "handleInterview text (Resolved s) st =
    st\<lparr>loading := False, state := Some s, step := Results, clarification := None\<rparr>"
  using assms by (simp add: handleInterview_def Let_def)

lemma handleInterview_retry_frame:
  assumes "state st = Some current" and "failed_round res"
    and "attempts st + 1 < MAX_INTERVIEW_ATTEMPTS"
  shows "attempts (handleInterview text res st) = attempts st + 1
    \<and> step (handleInterview text res st) = step st
    \<and> state (handleInterview text res st) \<noteq> None
    \<and> clarification (handleInterview text res st) \<noteq> None
    \<and> error (handleInterview text res st) = error st
    \<and> \<not> loading (handleInterview text res st)"
proof (cases res)
  case (Resolved s)
  show ?thesis
  proof (cases "pending_questions s = []")
    case True
    with assms Resolved have "\<not> has_final_costs s" by (simp add: failed_round_def)
    with True Resolved assms show ?thesis by (simp add: handleInterview_no_costs)
  next
    case False
    with Resolved assms show ?thesis by (simp add: handleInterview_questions)
  qed
next
  case (Threw err)
  with assms show ?thesis by (simp add: handleInterview_threw)
qed


lemma handleInterview_cases:
  assumes "state st = Some current"
  obtains (failed) "failed_round res"
  | (succeeded) s where "res = Resolved s" and "pending_questions s = []" and "has_final_costs s"
  by (cases res) (auto simp: failed_round_def)

lemma page_invariant_initial: "page_invariant initial"
  by (simp add: page_invariant_def initial_def MAX_INTERVIEW_ATTEMPTS_def)

lemma page_invariant_handleUpload:
  assumes "page_invariant st" and "step st = Upload"
  shows "page_invariant (handleUpload res st)"
  using assms
  by (auto simp: page_invariant_def handleUpload_def Let_def split: response.splits)

lemma page_invariant_handleInterview:
  assumes "page_invariant st" and "step st = Review"
  shows "page_invariant (handleInterview t res st)"
proof -
  from assms obtain current where cur: "state st = Some current"
    by (auto simp: page_invariant_def)
  from assms have budget: "attempts st < MAX_INTERVIEW_ATTEMPTS"
    by (simp add: page_invariant_def)
  from cur show ?thesis
  proof (cases rule: handleInterview_cases [where res = res])
    case failed
    show ?thesis
    proof (cases "attempts st + 1 < MAX_INTERVIEW_ATTEMPTS")
      case True
      from handleInterview_retry_frame [OF cur failed True, of t] assms(2) True
      show ?thesis by (auto simp: page_invariant_def)
    next
      case False
      then have "MAX_INTERVIEW_ATTEMPTS \<le> attempts st + 1" by simp
      from handleInterview_exhausted [OF cur failed this]
      show ?thesis by (simp add: page_invariant_def initial_def MAX_INTERVIEW_ATTEMPTS_def)
    qed
  next
    case (succeeded s)
    with cur budget show ?thesis
      by (simp add: handleInterview_success page_invariant_def)
  qed
qed

lemma page_invariant_fire:
  assumes "page_invariant st" and "enabled st ev"
  shows "page_invariant (fire st ev)"
proof (cases ev)
  case (UploadFile res)
  with assms show ?thesis by (simp add: page_invariant_handleUpload)
next
  case (SubmitText t res)
  with assms show ?thesis
    by (simp add: handleSubmit_def page_invariant_handleInterview)
next
  case CancelReview
  then show ?thesis by (simp add: handleStartOver_initial page_invariant_initial)
next
  case StartOver
  then show ?thesis by (simp add: handleStartOver_initial page_invariant_initial)
qed

lemma page_invariant_run:
  "page_invariant st \<Longrightarrow> run st evs = Some st' \<Longrightarrow> page_invariant st'"
proof (induction evs arbitrary: st)
  case Nil
  then show ?case by simp
next
  case (Cons ev evs)
  from Cons.prems(2) have en: "enabled st ev" and rest: "run (fire st ev) evs = Some st'"
    by (auto split: if_splits)
  from Cons.IH [OF page_invariant_fire [OF Cons.prems(1) en] rest] show ?case .
qed

lemma reachable_invariant: "run initial evs = Some st \<Longrightarrow> page_invariant st"
  by (rule page_invariant_run [OF page_invariant_initial])


lemma good_extraction_accepted: "\<not> isReceiptTooPoor (extraction [burger, pizza] [])"
  by (simp add: isReceiptTooPoor_cases extraction_def hard_failure_signal_def flagCount_def)

lemma reviewing_eq:
  "reviewing = initial\<lparr>state := Some (extraction [burger, pizza] []), step := Review\<rparr>"
  by (simp add: reviewing_def good_extraction_def handleUpload_def good_extraction_accepted
      initial_def)

lemma failed_question_round: "failed_round question_round"
  by (simp add: failed_round_def question_round_def answer_def)



lemma reviewing_fields:
  "state reviewing = Some (extraction [burger, pizza] [])" "attempts reviewing = 0"
  "step reviewing = Review" "\<not> loading reviewing"
  by (simp_all add: reviewing_eq initial_def)

lemma two_failures_fields:
  "step two_failures = Review" "attempts two_failures = 2"
  "state two_failures = Some (answer [who_question] None)" "\<not> loading two_failures"
  by (simp_all add: two_failures_def reviewing_eq initial_def question_round_def answer_def
      handleInterview_questions MAX_INTERVIEW_ATTEMPTS_def)


text \<open>
  C4. In every state the page can reach, the upload phase has no attempt counted: the reset
  and the exhausted budget, the two ways into the upload phase, both set the counter to 0,
  and uploading does not change it.
\<close>

theorem upload_phase_attempts_zero:
  "(run initial evs = Some st \<and> step st = Upload \<longrightarrow> attempts st = 0)
   \<and> step (handleStartOver st0) = Upload \<and> attempts (handleStartOver st0) = 0
   \<and> (step (handleFailedAttempt message st0) \<noteq> step st0 \<longrightarrow>
        step (handleFailedAttempt message st0) = Upload
        \<and> attempts (handleFailedAttempt message st0) = 0)
   \<and> attempts (handleUpload res st0) = attempts st0"
proof (intro conjI impI)
  assume "run initial evs = Some st \<and> step st = Upload"
  then have "page_invariant st" and "step st = Upload"
    by (auto intro: reachable_invariant)
  then show "attempts st = 0" by (simp add: page_invariant_def)
next
  assume "step (handleFailedAttempt message st0) \<noteq> step st0"
  then show "step (handleFailedAttempt message st0) = Upload"
    and "attempts (handleFailedAttempt message st0) = 0"
    by (simp_all add: handleFailedAttempt_def Let_def split: if_splits)
next
  show "attempts (handleUpload res st0) = attempts st0"
    by (simp add: handleUpload_def Let_def split: response.splits)
qed (simp_all add: handleStartOver_def)

lemma handleSubmit_not_blank:
  "trim t \<noteq> [] \<Longrightarrow> handleSubmit t onSubmit st = onSubmit (trim t) st"
  by (simp add: handleSubmit_def)

lemma trim_text_alice: "trim text_alice = text_alice"
  by (simp add: trim_def text_alice_def js_def isWhiteSpace_def)

lemma text_alice_not_blank: "text_alice \<noteq> []"
  by (simp add: text_alice_def js_def)

lemma run_two_failures:
  "run initial [UploadFile good_extraction, SubmitText text_alice question_round,
     SubmitText text_alice question_round] = Some two_failures"
proof -
  have up: "enabled initial (UploadFile good_extraction)" by (simp add: initial_def)
  have r1: "fire initial (UploadFile good_extraction) = reviewing" by (simp add: reviewing_def)
  have e1: "enabled reviewing (SubmitText text_alice question_round)"
    by (simp add: reviewing_fields trim_text_alice text_alice_not_blank)
  let ?one = "handleInterview text_alice question_round reviewing"
  have r2: "fire reviewing (SubmitText text_alice question_round) = ?one"
    by (simp add: handleSubmit_not_blank trim_text_alice text_alice_not_blank)
  have "attempts reviewing + 1 < MAX_INTERVIEW_ATTEMPTS"
    by (simp add: reviewing_fields MAX_INTERVIEW_ATTEMPTS_def)
  from handleInterview_retry_frame [OF reviewing_fields(1) failed_question_round this, of text_alice]
  have e2: "enabled ?one (SubmitText text_alice question_round)"
    by (simp add: reviewing_fields trim_text_alice text_alice_not_blank)
  have r3: "fire ?one (SubmitText text_alice question_round) = two_failures"
    by (simp add: handleSubmit_not_blank trim_text_alice text_alice_not_blank two_failures_def)
  from up r1 e1 r2 e2 r3 show ?thesis by simp
qed

lemma run_append:
  "run st (evs @ evs') = (case run st evs of None \<Rightarrow> None | Some st' \<Rightarrow> run st' evs')"
  by (induction evs arbitrary: st) simp_all

lemma run_three_failures:
  "run initial [UploadFile good_extraction, SubmitText text_alice question_round,
     SubmitText text_alice question_round, SubmitText text_alice question_round]
   = Some (initial\<lparr>error := Some msg_not_enough_information\<rparr>)"
proof -
  have e: "enabled two_failures (SubmitText text_alice question_round)"
    by (simp add: two_failures_fields trim_text_alice text_alice_not_blank)
  have "MAX_INTERVIEW_ATTEMPTS \<le> attempts two_failures + 1"
    by (simp add: two_failures_fields MAX_INTERVIEW_ATTEMPTS_def)
  from handleInterview_exhausted [OF two_failures_fields(3) failed_question_round this, of text_alice]
  have f: "fire two_failures (SubmitText text_alice question_round)
      = initial\<lparr>error := Some msg_not_enough_information\<rparr>"
    by (simp add: handleSubmit_not_blank trim_text_alice text_alice_not_blank)
  have "run initial ([UploadFile good_extraction, SubmitText text_alice question_round,
     SubmitText text_alice question_round] @ [SubmitText text_alice question_round])
   = Some (initial\<lparr>error := Some msg_not_enough_information\<rparr>)"
    unfolding run_append run_two_failures using e f by simp
  then show ?thesis by simp
qed

theorem upload_phase_attempts_zero_witness:
  "run initial [UploadFile good_extraction, SubmitText text_alice question_round,
     SubmitText text_alice question_round, SubmitText text_alice question_round]
     = Some (initial\<lparr>error := Some msg_not_enough_information\<rparr>)
   \<and> step (initial\<lparr>error := Some msg_not_enough_information\<rparr>) = Upload
   \<and> attempts (initial\<lparr>error := Some msg_not_enough_information\<rparr>) = 0
   \<and> step (handleFailedAttempt who_question two_failures) \<noteq> step two_failures
   \<and> step (handleFailedAttempt who_question two_failures) = Upload
   \<and> attempts (handleFailedAttempt who_question two_failures) = 0"
proof -
  have changed: "step (handleFailedAttempt who_question two_failures) \<noteq> step two_failures"
    by (simp add: handleFailedAttempt_def two_failures_fields MAX_INTERVIEW_ATTEMPTS_def)
  have up: "step (initial\<lparr>error := Some msg_not_enough_information\<rparr>) = Upload"
    by (simp add: initial_def)
  from upload_phase_attempts_zero
    [of "[UploadFile good_extraction, SubmitText text_alice question_round,
          SubmitText text_alice question_round, SubmitText text_alice question_round]"
      "initial\<lparr>error := Some msg_not_enough_information\<rparr>" two_failures who_question]
    run_three_failures changed up
  show ?thesis by simp
qed

section \<open>Properties of the page\<close>









text \<open>
  C7. In the results phase the page offers neither upload nor submission nor cancel: the
  one callback it offers is the reset, which puts the page back into its initial state
  (upload phase, no receipt state, no error, no clarification, no attempt counted). Every
  results phase the page can reach does offer it.
\<close>

theorem results_is_terminal:
  assumes "step st = Results"
  shows "\<not> enabled st (UploadFile res) \<and> \<not> enabled st (SubmitText t res')
    \<and> \<not> enabled st CancelReview
    \<and> (enabled st ev \<longrightarrow> ev = StartOver \<and> fire st ev = initial)
    \<and> (run initial evs = Some st \<longrightarrow> enabled st StartOver)"
proof -
  have "ev = StartOver \<and> fire st ev = initial" if "enabled st ev"
    using that assms by (cases ev) (simp_all add: handleStartOver_initial)
  moreover have "enabled st StartOver" if "run initial evs = Some st"
  proof -
    from that have "page_invariant st" by (rule reachable_invariant)
    with assms show ?thesis
      by (auto simp: page_invariant_def has_final_costs_def split: option.splits)
  qed
  ultimately show ?thesis using assms by simp
qed


lemma settled_eq:
  "settled = initial\<lparr>state := Some (answer [] (Some scenario_costs)), step := Results\<rparr>"
proof -
  have "pending_questions (answer [] (Some scenario_costs)) = []"
    and "has_final_costs (answer [] (Some scenario_costs))"
    by (simp_all add: answer_def has_final_costs_def scenario_costs_def)
  from handleInterview_success [OF reviewing_fields(1) this, of text_alice]
  show ?thesis
    by (simp add: settled_def costs_round_def reviewing_eq initial_def)
qed

lemma run_settled:
  "run initial [UploadFile good_extraction, SubmitText text_alice costs_round] = Some settled"
proof -
  have up: "enabled initial (UploadFile good_extraction)" by (simp add: initial_def)
  have r1: "fire initial (UploadFile good_extraction) = reviewing" by (simp add: reviewing_def)
  have e1: "enabled reviewing (SubmitText text_alice costs_round)"
    by (simp add: reviewing_fields trim_text_alice text_alice_not_blank)
  have r2: "fire reviewing (SubmitText text_alice costs_round) = settled"
    by (simp add: handleSubmit_not_blank trim_text_alice text_alice_not_blank settled_def)
  from up r1 e1 r2 show ?thesis by simp
qed

theorem results_is_terminal_witness:
  "step settled = Results
   \<and> run initial [UploadFile good_extraction, SubmitText text_alice costs_round] = Some settled
   \<and> enabled settled StartOver \<and> fire settled StartOver = initial
   \<and> \<not> enabled settled (UploadFile good_extraction)
   \<and> \<not> enabled settled (SubmitText text_alice question_round)
   \<and> run settled [SubmitText text_alice question_round] = None"
proof -
  have r: "step settled = Results" by (simp add: settled_eq initial_def)
  from results_is_terminal [OF r, of good_extraction text_alice question_round StartOver
      "[UploadFile good_extraction, SubmitText text_alice costs_round]"]
    run_settled r
  show ?thesis by simp
qed


text \<open>
  Counterexample to C9 as it is stated, on the third failed round: with two attempts
  used, an answer that has both a question and final costs resets the page, so no
  clarification is shown and the counter is 0, not 3.
\<close>

theorem questions_take_precedence_counterexample:
  "run initial [UploadFile good_extraction, SubmitText text_alice question_round,
     SubmitText text_alice question_round] = Some two_failures
   \<and> enabled two_failures (SubmitText text_alice (Resolved questions_and_costs))
   \<and> pending_questions questions_and_costs \<noteq> [] \<and> has_final_costs questions_and_costs
   \<and> attempts two_failures = 2
   \<and> attempts (fire two_failures (SubmitText text_alice (Resolved questions_and_costs))) = 0
   \<and> clarification (fire two_failures (SubmitText text_alice (Resolved questions_and_costs)))
       = None
   \<and> step (fire two_failures (SubmitText text_alice (Resolved questions_and_costs))) = Upload"
proof -
  have q: "pending_questions questions_and_costs \<noteq> []"
    and c: "has_final_costs questions_and_costs"
    by (simp_all add: questions_and_costs_def answer_def has_final_costs_def scenario_costs_def)
  from q have f: "failed_round (Resolved questions_and_costs)" by (simp add: failed_round_def)
  have "MAX_INTERVIEW_ATTEMPTS \<le> attempts two_failures + 1"
    by (simp add: two_failures_fields MAX_INTERVIEW_ATTEMPTS_def)
  from handleInterview_exhausted [OF two_failures_fields(3) f this, of text_alice]
  have "fire two_failures (SubmitText text_alice (Resolved questions_and_costs))
      = initial\<lparr>error := Some msg_not_enough_information\<rparr>"
    by (simp add: handleSubmit_not_blank trim_text_alice text_alice_not_blank)
  then show ?thesis
    using q c run_two_failures
    by (simp add: two_failures_fields initial_def trim_text_alice text_alice_not_blank)
qed

text \<open>
  C9, amended. When the answer has both questions and final costs, the questions win: the
  page does not go to the results phase and the round is handled as a failed attempt.
  While the new count is below 3, the count is kept and the joined questions are shown with
  the attempt note; when it reaches 3, the page resets to the upload phase as after any
  third failure.
\<close>

theorem questions_take_precedence:
  assumes "state st = Some current" and "step st = Review"
    and "pending_questions s \<noteq> []" and "has_final_costs s"
  shows "step (handleInterview t (Resolved s) st) \<noteq> Results
    \<and> (attempts st + 1 < 3 \<longrightarrow>
          handleInterview t (Resolved s) st =
            st\<lparr>loading := False, state := Some s, attempts := attempts st + 1,
               clarification := Some (join (pending_questions s) [0x0A, 0x0A] @ [0x0A, 0x0A]
                 @ js ''(Attempt '' @ String_nat (attempts st + 1) @ js '' of 3)'')\<rparr>)
    \<and> (3 \<le> attempts st + 1 \<longrightarrow>
          handleInterview t (Resolved s) st = initial\<lparr>error := Some msg_not_enough_information\<rparr>)"
proof -
  have nl: "js [CHR 0x0A, CHR 0x0A] = [0x0A, 0x0A]" by (simp add: js_def)
  from assms(3) have f: "failed_round (Resolved s)" by (simp add: failed_round_def)
  have low: "handleInterview t (Resolved s) st =
            st\<lparr>loading := False, state := Some s, attempts := attempts st + 1,
               clarification := Some (join (pending_questions s) [0x0A, 0x0A] @ [0x0A, 0x0A]
                 @ js ''(Attempt '' @ String_nat (attempts st + 1) @ js '' of 3)'')\<rparr>"
    if "attempts st + 1 < 3"
  proof -
    from that have "attempts st + 1 < MAX_INTERVIEW_ATTEMPTS"
      by (simp add: MAX_INTERVIEW_ATTEMPTS_def)
    from handleInterview_questions [OF assms(1,3) this, of t] show ?thesis
      by (simp only: nl attempt_note_eq)
  qed
  have high: "handleInterview t (Resolved s) st = initial\<lparr>error := Some msg_not_enough_information\<rparr>"
    if "3 \<le> attempts st + 1"
  proof -
    from that have "MAX_INTERVIEW_ATTEMPTS \<le> attempts st + 1"
      by (simp add: MAX_INTERVIEW_ATTEMPTS_def)
    from handleInterview_exhausted [OF assms(1) f this] show ?thesis .
  qed
  have "step (handleInterview t (Resolved s) st) \<noteq> Results"
  proof (cases "attempts st + 1 < 3")
    case True
    from low [OF True] assms(2) show ?thesis by simp
  next
    case False
    then have "3 \<le> attempts st + 1" by simp
    from high [OF this] show ?thesis by (simp add: initial_def)
  qed
  with low high show ?thesis by blast
qed

theorem questions_take_precedence_witness:
  "state reviewing = Some (extraction [burger, pizza] []) \<and> step reviewing = Review
   \<and> pending_questions questions_and_costs \<noteq> [] \<and> has_final_costs questions_and_costs
   \<and> attempts reviewing + 1 < 3
   \<and> step (handleInterview text_alice (Resolved questions_and_costs) reviewing) = Review
   \<and> attempts (handleInterview text_alice (Resolved questions_and_costs) reviewing) = 1
   \<and> clarification (handleInterview text_alice (Resolved questions_and_costs) reviewing)
       = Some (js ''Who had the pizza?'' @ [0x0A, 0x0A] @ js ''(Attempt 1 of 3)'')
   \<and> state two_failures = Some (answer [who_question] None) \<and> step two_failures = Review
   \<and> 3 \<le> attempts two_failures + 1
   \<and> handleInterview text_alice (Resolved questions_and_costs) two_failures
       = initial\<lparr>error := Some msg_not_enough_information\<rparr>"
proof -
  have q: "pending_questions questions_and_costs \<noteq> []"
    and c: "has_final_costs questions_and_costs"
    by (simp_all add: questions_and_costs_def answer_def has_final_costs_def scenario_costs_def)
  have one: "String_nat (Suc 0) = [0x31]" by (simp add: String_nat.simps)
  have pq: "pending_questions questions_and_costs = [who_question]"
    by (simp add: questions_and_costs_def answer_def)
  have lt: "attempts reviewing + 1 < 3" by (simp add: reviewing_fields)
  have ge: "3 \<le> attempts two_failures + 1" by (simp add: two_failures_fields)
  from questions_take_precedence [OF reviewing_fields(1) reviewing_fields(3) q c, of text_alice,
      THEN conjunct2, THEN conjunct1] lt
  have "handleInterview text_alice (Resolved questions_and_costs) reviewing =
      reviewing\<lparr>loading := False, state := Some questions_and_costs, attempts := 1,
        clarification := Some (js ''Who had the pizza?'' @ [0x0A, 0x0A] @ js ''(Attempt 1 of 3)'')\<rparr>"
    by (simp add: reviewing_fields pq one who_question_def js_def)
  moreover
  from questions_take_precedence [OF two_failures_fields(3) two_failures_fields(1) q c,
      of text_alice, THEN conjunct2, THEN conjunct2] ge
  have "handleInterview text_alice (Resolved questions_and_costs) two_failures
       = initial\<lparr>error := Some msg_not_enough_information\<rparr>" by simp
  ultimately show ?thesis
    using q c lt ge by (simp add: reviewing_fields two_failures_fields)
qed

text \<open>
  C10. A text of white space only (the empty text included) trims to the empty string: the
  submit handler returns without calling its callback, whatever the callback is, and the
  button itself is disabled, so the page's state stays as it is and no round takes place.
\<close>

theorem blank_submission_is_noop:
  assumes "list_all isWhiteSpace t"
  shows "trim t = []
    \<and> handleSubmit t onSubmit x = x
    \<and> handleSubmit t (\<lambda>_ calls. Suc calls) (0::nat) = 0
    \<and> fire st (SubmitText t res) = st
    \<and> \<not> enabled st (SubmitText t res)"
proof -
  from assms have "\<forall>u \<in> set t. isWhiteSpace u" by (simp add: list_all_iff)
  then have dropped: "dropWhile isWhiteSpace t = []"
    by (rule dropWhile_eq_Nil_conv [THEN iffD2])
  have "trim t = []" unfolding trim_def dropped by simp
  then show ?thesis by (simp add: handleSubmit_def)
qed

theorem blank_submission_is_noop_witness:
  "list_all isWhiteSpace blank_text \<and> list_all isWhiteSpace []
   \<and> trim blank_text = []
   \<and> fire two_failures (SubmitText blank_text question_round) = two_failures
   \<and> \<not> enabled two_failures (SubmitText blank_text question_round)
   \<and> fire reviewing (SubmitText [] costs_round) = reviewing"
proof -
  have b: "list_all isWhiteSpace blank_text" by (simp add: blank_text_def isWhiteSpace_def)
  have e: "list_all isWhiteSpace []" by simp
  from blank_submission_is_noop [OF b, of "\<lambda>_ n. n" "0::nat" two_failures question_round]
    blank_submission_is_noop [OF e, of "\<lambda>_ n. n" "0::nat" reviewing costs_round] b
  show ?thesis by simp
qed

section \<open>Properties of the numbers\<close>

lemma bitLength_bounds:
  "0 < p \<Longrightarrow> 0 < bitLength p \<and> 2 ^ nat (bitLength p - 1) \<le> p \<and> p < 2 ^ nat (bitLength p)"
proof (induction p rule: bitLength.induct)
  case (1 p)
  have bl: "bitLength p = 1 + bitLength (p div 2)"
    using "1.prems" by (simp add: bitLength.simps [of p])
  show ?case
  proof (cases "p div 2 \<le> 0")
    case True
    then have "bitLength (p div 2) = 0" by (simp add: bitLength.simps [of "p div 2"])
    with bl have one: "bitLength p = 1" by simp
    from True "1.prems" have "p = 1" by linarith
    with one show ?thesis by simp
  next
    case False
    then have pos: "0 < p div 2" by simp
    from "1.IH" [OF _ pos] "1.prems"
    have ih: "0 < bitLength (p div 2)" "2 ^ nat (bitLength (p div 2) - 1) \<le> p div 2"
      "p div 2 < 2 ^ nat (bitLength (p div 2))"
      by simp_all
    let ?b = "bitLength (p div 2)"
    have e1: "nat (1 + ?b - 1) = Suc (nat (?b - 1))" using ih(1) by simp
    have e2: "nat (1 + ?b) = Suc (nat ?b)" using ih(1) by simp
    from ih(2) have "2 * 2 ^ nat (?b - 1) \<le> 2 * (p div 2)" by simp
    also have "\<dots> \<le> p" by linarith
    finally have lower: "2 ^ nat (1 + ?b - 1) \<le> p" by (simp only: e1 power_Suc)
    from ih(3) have "p div 2 + 1 \<le> 2 ^ nat ?b" by simp
    then have "2 * (p div 2) + 2 \<le> 2 * 2 ^ nat ?b" by simp
    moreover have "p < 2 * (p div 2) + 2" by linarith
    ultimately have "p < 2 * 2 ^ nat ?b" by linarith
    then have upper: "p < 2 ^ nat (1 + ?b)" by (simp only: e2 power_Suc)
    from ih(1) lower upper show ?thesis by (simp add: bl)
  qed
qed

lemma bitLength_bounds_rat:
  assumes "0 < p"
  shows "(2 powi (bitLength p - 1) :: rat) \<le> of_int p"
    and "(of_int p :: rat) < 2 powi (bitLength p)"
proof -
  note b = bitLength_bounds [OF assms]
  from b have "(of_int (2 ^ nat (bitLength p - 1)) :: rat) \<le> of_int p"
    by (simp only: of_int_le_iff)
  moreover from b have "(2 powi (bitLength p - 1) :: rat) = 2 ^ nat (bitLength p - 1)"
    by (simp add: power_int_def)
  ultimately show "(2 powi (bitLength p - 1) :: rat) \<le> of_int p" by simp
  from b have "(of_int p :: rat) < of_int (2 ^ nat (bitLength p))"
    by (simp only: of_int_less_iff)
  moreover from b have "(2 powi (bitLength p) :: rat) = 2 ^ nat (bitLength p)"
    by (simp add: power_int_def)
  ultimately show "(of_int p :: rat) < 2 powi (bitLength p)" by simp
qed

lemma pow2_less_cancel:
  assumes "(2 powi e :: rat) < 2 powi f"
  shows "e < f"
proof (rule ccontr)
  assume "\<not> e < f"
  then have "f \<le> e" by simp
  then have "(2 powi f :: rat) \<le> 2 powi e" by (rule power_int_increasing) simp
  with assms show False by simp
qed

lemma floor_log2_bounds:
  assumes "0 < a"
  shows "2 powi (floor_log2 a) \<le> a" and "a < 2 powi (floor_log2 a + 1)"
proof -
  obtain p q where pq: "quotient_of a = (p, q)" by (cases "quotient_of a")
  then have a: "a = of_int p / of_int q" and q: "0 < q"
    by (simp_all add: quotient_of_div quotient_of_denom_pos)
  have qr: "(0::rat) < of_int q" using q by simp
  from assms have "0 < p" unfolding a using qr by (simp add: zero_less_divide_iff)
  then have p: "0 < p" and pr: "(0::rat) < of_int p" by simp_all
  let ?d = "bitLength p - bitLength q"
  note bp = bitLength_bounds_rat [OF p] and bq = bitLength_bounds_rat [OF q]
  have pw: "(0::rat) < 2 powi (bitLength q - 1)" "(0::rat) < 2 powi (bitLength q)" by simp_all
  have "a < 2 powi (bitLength p) / of_int q"
    unfolding a using bp(2) qr by (simp add: divide_strict_right_mono)
  also have "\<dots> \<le> 2 powi (bitLength p) / 2 powi (bitLength q - 1)"
    using bq(1) pw(1) qr by (intro divide_left_mono) simp_all
  also have "\<dots> = 2 powi (bitLength p - (bitLength q - 1))"
    by (rule power_int_diff [symmetric]) simp
  also have "bitLength p - (bitLength q - 1) = ?d + 1" by simp
  finally have up: "a < 2 powi (?d + 1)" .
  have "?d - 1 = bitLength p - 1 - bitLength q" by simp
  then have "(2 powi (?d - 1) :: rat) = 2 powi (bitLength p - 1 - bitLength q)" by (simp only:)
  also have "\<dots> = 2 powi (bitLength p - 1) / 2 powi (bitLength q)"
    by (rule power_int_diff) simp
  also have "\<dots> \<le> of_int p / 2 powi (bitLength q)"
    using bp(1) pw(2) by (intro divide_right_mono) simp_all
  also have "\<dots> \<le> of_int p / of_int q"
    using bq(2) qr pr by (intro divide_left_mono) simp_all
  finally have low: "2 powi (?d - 1) \<le> a" unfolding a .
  have fl: "floor_log2 a = (if 2 powi ?d \<le> a then ?d else ?d - 1)"
    by (simp add: floor_log2_def pq Let_def)
  show "2 powi (floor_log2 a) \<le> a" using low by (simp add: fl)
  show "a < 2 powi (floor_log2 a + 1)" using up by (auto simp: fl not_le)
qed

lemma floor_log2_unique:
  assumes "2 powi e \<le> a" and "a < 2 powi (e + 1)"
  shows "floor_log2 a = e"
proof -
  have "(0::rat) < 2 powi e" by simp
  with assms(1) have pos: "0 < a" by linarith
  note b = floor_log2_bounds [OF pos]
  have "2 powi e < (2 powi (floor_log2 a + 1) :: rat)" using assms(1) b(2) by linarith
  then have "e < floor_log2 a + 1" by (rule pow2_less_cancel)
  moreover
  have "2 powi (floor_log2 a) < (2 powi (e + 1) :: rat)" using assms(2) b(1) by linarith
  then have "floor_log2 a < e + 1" by (rule pow2_less_cancel)
  ultimately show ?thesis by simp
qed


lemma round_half_even_cases:
  obtains (low) "y - of_int \<lfloor>y\<rfloor> < 1 / 2" "round_half_even y = \<lfloor>y\<rfloor>"
  | (high) "1 / 2 < y - of_int \<lfloor>y\<rfloor>" "round_half_even y = \<lfloor>y\<rfloor> + 1"
  | (tie) "y = of_int \<lfloor>y\<rfloor> + 1 / 2"
      "round_half_even y = (if even \<lfloor>y\<rfloor> then \<lfloor>y\<rfloor> else \<lfloor>y\<rfloor> + 1)"
proof -
  consider "y - of_int \<lfloor>y\<rfloor> < 1 / 2" | "1 / 2 < y - of_int \<lfloor>y\<rfloor>"
    | "y - of_int \<lfloor>y\<rfloor> = 1 / 2" by linarith
  then show thesis
  proof cases
    case 1
    then show ?thesis by (intro low) (simp_all add: round_half_even_def Let_def)
  next
    case 2
    then show ?thesis by (intro high) (simp_all add: round_half_even_def Let_def)
  next
    case 3
    then have "y = of_int \<lfloor>y\<rfloor> + 1 / 2" by linarith
    with 3 show ?thesis by (intro tie) (simp_all add: round_half_even_def Let_def)
  qed
qed

lemma round_half_even_bounds:
  "of_int (round_half_even y) \<le> y + 1 / 2" "y - 1 / 2 \<le> of_int (round_half_even y)"
proof -
  have both: "of_int (round_half_even y) \<le> y + 1 / 2 \<and> y - 1 / 2 \<le> of_int (round_half_even y)"
  proof (cases y rule: round_half_even_cases)
    case low
    from low(2) have "(of_int (round_half_even y) :: rat) = of_int \<lfloor>y\<rfloor>" by simp
    with low(1) show ?thesis by linarith
  next
    case high
    from high(2) have "(of_int (round_half_even y) :: rat) = of_int \<lfloor>y\<rfloor> + 1" by simp
    with high(1) show ?thesis by linarith
  next
    case tie
    from tie(2) have "(of_int (round_half_even y) :: rat) = of_int \<lfloor>y\<rfloor>
      \<or> (of_int (round_half_even y) :: rat) = of_int \<lfloor>y\<rfloor> + 1" by (cases "even \<lfloor>y\<rfloor>") simp_all
    with tie(1) show ?thesis by linarith
  qed
  then show "of_int (round_half_even y) \<le> y + 1 / 2" "y - 1 / 2 \<le> of_int (round_half_even y)"
    by simp_all
qed

lemma round_half_even_of_int: "round_half_even (of_int k) = k"
  by (simp add: round_half_even_def)

lemma round_half_even_between:
  assumes "of_int n - 1 / 2 < y" and "y < of_int n + 1 / 2"
  shows "round_half_even y = n"
proof -
  note b = round_half_even_bounds [of y]
  from b(1) assms(2) have "(of_int (round_half_even y) :: rat) < of_int n + 1" by linarith
  then have "(of_int (round_half_even y) :: rat) < of_int (n + 1)" by simp
  then have "round_half_even y < n + 1" by (simp only: of_int_less_iff)
  moreover
  from b(2) assms(1) have "(of_int n - 1 :: rat) < of_int (round_half_even y)" by linarith
  then have "(of_int (n - 1) :: rat) < of_int (round_half_even y)" by simp
  then have "n - 1 < round_half_even y" by (simp only: of_int_less_iff)
  ultimately show ?thesis by simp
qed

lemma round_half_even_ge_even:
  assumes "even n"
  shows "(n \<le> round_half_even y) = (of_int n - 1 / 2 \<le> y)"
proof -
  let ?f = "\<lfloor>y\<rfloor>"
  have f: "of_int ?f \<le> y" "y < of_int ?f + 1" by linarith+
  consider (low) "y - of_int ?f < 1 / 2" | (high) "1 / 2 < y - of_int ?f"
    | (tie) "y - of_int ?f = 1 / 2" by linarith
  then show ?thesis
  proof cases
    case low
    then have r: "round_half_even y = ?f" by (simp add: round_half_even_def Let_def)
    have "(n \<le> ?f) = (of_int n - 1 / 2 \<le> y)"
    proof
      assume "n \<le> ?f"
      then have "(of_int n :: rat) \<le> of_int ?f" by (simp only: of_int_le_iff)
      with f show "of_int n - 1 / 2 \<le> y" by linarith
    next
      assume "of_int n - 1 / 2 \<le> y"
      with low have "(of_int n :: rat) < of_int ?f + 1" by linarith
      then have "(of_int n :: rat) < of_int (?f + 1)" by simp
      then have "n < ?f + 1" by (simp only: of_int_less_iff)
      then show "n \<le> ?f" by simp
    qed
    with r show ?thesis by simp
  next
    case high
    then have r: "round_half_even y = ?f + 1" by (simp add: round_half_even_def Let_def)
    have "(n \<le> ?f + 1) = (of_int n - 1 / 2 \<le> y)"
    proof
      assume "n \<le> ?f + 1"
      then have "(of_int n :: rat) \<le> of_int (?f + 1)" by (simp only: of_int_le_iff)
      then have "(of_int n :: rat) \<le> of_int ?f + 1" by simp
      with high show "of_int n - 1 / 2 \<le> y" by linarith
    next
      assume "of_int n - 1 / 2 \<le> y"
      with f have "(of_int n :: rat) < of_int ?f + 2" by linarith
      then have "(of_int n :: rat) < of_int (?f + 2)" by simp
      then have "n < ?f + 2" by (simp only: of_int_less_iff)
      then show "n \<le> ?f + 1" by simp
    qed
    with r show ?thesis by simp
  next
    case tie
    then have r: "round_half_even y = (if even ?f then ?f else ?f + 1)"
      by (simp add: round_half_even_def Let_def)
    from tie have y: "y = of_int ?f + 1 / 2" by linarith
    have "(of_int n - 1 / 2 \<le> y) = ((of_int n :: rat) \<le> of_int (?f + 1))"
      by (subst y) auto
    also have "\<dots> = (n \<le> ?f + 1)" by (simp only: of_int_le_iff)
    finally have iff: "(of_int n - 1 / 2 \<le> y) = (n \<le> ?f + 1)" .
    show ?thesis
    proof (cases "even ?f")
      case True
      with assms have "n \<noteq> ?f + 1" by auto
      then have "(n \<le> ?f) = (n \<le> ?f + 1)" by linarith
      with r True iff show ?thesis by simp
    next
      case False
      with r iff show ?thesis by simp
    qed
  qed
qed


lemma pow2_shift: "2 ^ 52 * (2 powi (e - 52) :: rat) = 2 powi e"
proof -
  have "(2 powi 52 :: rat) * 2 powi (e - 52) = 2 powi (52 + (e - 52))"
    by (rule power_int_add [symmetric]) simp
  moreover have "52 + (e - 52) = e" by simp
  ultimately have "(2 powi 52 :: rat) * 2 powi (e - 52) = 2 powi e" by (simp only:)
  then show ?thesis by (simp only: power_int_numeral)
qed

lemma pow2_shift': "2 ^ 53 * (2 powi (e - 52) :: rat) = 2 powi (e + 1)"
proof -
  have "(2 powi 53 :: rat) * 2 powi (e - 52) = 2 powi (53 + (e - 52))"
    by (rule power_int_add [symmetric]) simp
  moreover have "53 + (e - 52) = e + 1" by simp
  ultimately have "(2 powi 53 :: rat) * 2 powi (e - 52) = 2 powi (e + 1)" by (simp only:)
  then show ?thesis by (simp only: power_int_numeral)
qed

lemma round_half_even_le:
  assumes "y < of_int n + 1 / 2"
  shows "round_half_even y \<le> n"
proof -
  from round_half_even_bounds(1) [of y] assms
  have "(of_int (round_half_even y) :: rat) < of_int (n + 1)" by simp
  then have "round_half_even y < n + 1" by (simp only: of_int_less_iff)
  then show ?thesis by simp
qed

lemma to_double_pos:
  assumes "0 < d"
  shows "to_double d =
    (if 2 powi 1024 \<le> round_magnitude d then PosInfinity else Finite (round_magnitude d))"
  using assms by (simp add: to_double_def Let_def)

lemma to_double_below_tolerance:
  assumes "0 \<le> d"
  shows "js_less (to_double d) (Finite (1080863910568919 / 2 ^ 54))
    = (d < 17293822569102703 / 2 ^ 58)"
proof (cases "d = 0")
  case True
  then show ?thesis by (simp add: to_double_def)
next
  case False
  with assms have pos: "0 < d" by simp
  define l where "l = floor_log2 d"
  define e where "e = max l (- 1022)"
  define q :: rat where "q = 2 powi (e - 52)"
  define m where "m = round_half_even (d / q)"
  define r :: rat where "r = of_int m * q"
  have "round_magnitude d = r"
    by (simp add: round_magnitude_def Let_def l_def e_def q_def m_def r_def)
  then have td: "to_double d = (if 2 powi 1024 \<le> r then PosInfinity else Finite r)"
    by (simp only: to_double_pos [OF pos])
  have qpos: "0 < q" by (simp add: q_def)
  note lb = floor_log2_bounds [OF pos, folded l_def]
  consider (big) "- 4 \<le> l" | (mid) "l = - 5" | (small) "l \<le> - 6" by linarith
  then show ?thesis
  proof cases
    case big
    then have el: "e = l" by (simp add: e_def)
    have "(2 powi (- 4) :: rat) \<le> 2 powi l" using big by (intro power_int_increasing) simp_all
    then have l16: "(1 / 16 :: rat) \<le> 2 powi l" by simp
    with lb(1) have d16: "1 / 16 \<le> d" by linarith
    have sh: "2 ^ 52 * q = 2 powi l" unfolding q_def el by (rule pow2_shift)
    with lb(1) have "2 ^ 52 * q \<le> d" by (simp only:)
    then have "2 ^ 52 \<le> d / q" by (simp only: pos_le_divide_eq [OF qpos])
    moreover have "(of_int (2 ^ 52) :: rat) = 2 ^ 52" by simp
    ultimately have "of_int (2 ^ 52) - 1 / 2 \<le> d / q" by linarith
    then have "2 ^ 52 \<le> m"
      unfolding m_def by (subst round_half_even_ge_even) simp_all
    then have "(of_int (2 ^ 52) :: rat) \<le> of_int m" by (simp only: of_int_le_iff)
    then have "of_int (2 ^ 52) * q \<le> r" unfolding r_def using qpos
      by (intro mult_right_mono) simp_all
    then have "2 ^ 52 * q \<le> r" by simp
    then have "2 powi l \<le> r" by (simp only: sh)
    with l16 have r16: "1 / 16 \<le> r" by linarith
    from r16 have "\<not> js_less (to_double d) (Finite (1080863910568919 / 2 ^ 54))"
      by (simp add: td)
    moreover from d16 have "\<not> d < 17293822569102703 / 2 ^ 58" by simp
    ultimately show ?thesis by simp
  next
    case mid
    then have e: "e = - 5" by (simp add: e_def)
    have q: "q = 1 / 2 ^ 57" by (simp add: q_def e power_int_minus_divide)
    from lb(2) mid have d16: "d < 1 / 16" by simp
    have dq: "d / q = d * 2 ^ 57" by (simp add: q)
    have "d / q < of_int (2 ^ 53) + 1 / 2" using d16 by (simp add: dq)
    then have "m \<le> 2 ^ 53" unfolding m_def by (rule round_half_even_le)
    then have "(of_int m :: rat) \<le> of_int (2 ^ 53)" by (simp only: of_int_le_iff)
    then have "r \<le> of_int (2 ^ 53) * q" unfolding r_def using qpos
      by (intro mult_right_mono) simp_all
    then have "r \<le> 1 / 16" by (simp add: q)
    moreover have "(1 :: rat) \<le> 2 powi 1024" by simp
    ultimately have "\<not> 2 powi 1024 \<le> r" by linarith
    with td have fin: "to_double d = Finite r" by (simp only: if_False)
    have "(r < 1080863910568919 / 2 ^ 54) = ((of_int m :: rat) < of_int 8646911284551352)"
      by (simp add: r_def q)
    also have "\<dots> = (m < 8646911284551352)" by (simp only: of_int_less_iff)
    also have "\<dots> = (\<not> 8646911284551352 \<le> m)" by auto
    also have "\<dots> = (\<not> of_int 8646911284551352 - 1 / 2 \<le> d / q)"
      unfolding m_def by (subst round_half_even_ge_even) simp_all
    also have "\<dots> = (d < 17293822569102703 / 2 ^ 58)" by (simp add: dq) linarith
    finally show ?thesis by (simp add: fin)
  next
    case small
    then have e_up: "e \<le> - 6" and le: "l \<le> e" by (simp_all add: e_def)
    have "(2 powi (l + 1) :: rat) \<le> 2 powi (e + 1)" using le
      by (intro power_int_increasing) simp_all
    with lb(2) have d_up: "d < 2 powi (e + 1)" by linarith
    have "(2 powi (e + 1) :: rat) \<le> 2 powi (- 5)" using e_up
      by (intro power_int_increasing) simp_all
    then have e32: "(2 powi (e + 1) :: rat) \<le> 1 / 32" by simp
    have sh: "2 ^ 53 * q = 2 powi (e + 1)" unfolding q_def by (rule pow2_shift')
    with d_up have "d < 2 ^ 53 * q" by (simp only:)
    then have "d / q < 2 ^ 53" by (simp only: pos_divide_less_eq [OF qpos])
    moreover have "(of_int (2 ^ 53) :: rat) = 2 ^ 53" by simp
    ultimately have "d / q < of_int (2 ^ 53) + 1 / 2" by linarith
    then have "m \<le> 2 ^ 53" unfolding m_def by (rule round_half_even_le)
    then have "(of_int m :: rat) \<le> of_int (2 ^ 53)" by (simp only: of_int_le_iff)
    then have "r \<le> of_int (2 ^ 53) * q" unfolding r_def using qpos
      by (intro mult_right_mono) simp_all
    then have "r \<le> 2 ^ 53 * q" by simp
    then have "r \<le> 2 powi (e + 1)" by (simp only: sh)
    with e32 have r32: "r \<le> 1 / 32" by linarith
    moreover have "(1 :: rat) \<le> 2 powi 1024" by simp
    ultimately have "\<not> 2 powi 1024 \<le> r" by linarith
    with td have fin: "to_double d = Finite r" by (simp only: if_False)
    from r32 have "js_less (to_double d) (Finite (1080863910568919 / 2 ^ 54))"
      by (simp add: fin)
    moreover from d_up e32 have "d < 17293822569102703 / 2 ^ 58" by simp
    ultimately show ?thesis by simp
  qed
qed


lemma round_magnitude_certificate:
  assumes "2 powi e \<le> a" and "a < 2 powi (e + 1)" and "- 1022 \<le> e"
    and "of_int m - 1 / 2 < a / 2 powi (e - 52)" and "a / 2 powi (e - 52) < of_int m + 1 / 2"
  shows "round_magnitude a = of_int m * 2 powi (e - 52)"
proof -
  from assms(1,2) have "floor_log2 a = e" by (rule floor_log2_unique)
  with assms(3) have "max (floor_log2 a) (- 1022) = e" by simp
  moreover from assms(4,5) have "round_half_even (a / 2 powi (e - 52)) = m"
    by (rule round_half_even_between)
  ultimately show ?thesis by (simp add: round_magnitude_def Let_def)
qed

lemma round_half_even_tie:
  assumes "y = of_int f + 1 / 2"
  shows "round_half_even y = (if even f then f else f + 1)"
proof -
  have "\<lfloor>y\<rfloor> = f" unfolding assms by (rule floor_unique) simp_all
  then show ?thesis by (simp add: round_half_even_def Let_def assms)
qed

lemma round_magnitude_certificate_tie:
  assumes "2 powi e \<le> a" and "a < 2 powi (e + 1)" and "- 1022 \<le> e"
    and "a / 2 powi (e - 52) = of_int f + 1 / 2"
  shows "round_magnitude a = of_int (if even f then f else f + 1) * 2 powi (e - 52)"
proof -
  from assms(1,2) have "floor_log2 a = e" by (rule floor_log2_unique)
  with assms(3) have "max (floor_log2 a) (- 1022) = e" by simp
  moreover from assms(4) have "round_half_even (a / 2 powi (e - 52)) = (if even f then f else f + 1)"
    by (rule round_half_even_tie)
  ultimately show ?thesis by (simp only: round_magnitude_def Let_def)
qed

lemma round_magnitude_nonneg:
  assumes "0 < a"
  shows "0 \<le> round_magnitude a"
proof -
  define q :: rat where "q = 2 powi (max (floor_log2 a) (- 1022) - 52)"
  have qpos: "0 < q" by (simp add: q_def)
  with assms have "0 < a / q" by simp
  with round_half_even_bounds(2) [of "a / q"]
  have "(of_int (- 1) :: rat) < of_int (round_half_even (a / q))" by simp
  then have "- 1 < round_half_even (a / q)" by (simp only: of_int_less_iff)
  then have "(0::rat) \<le> of_int (round_half_even (a / q))" by simp
  with qpos have "0 \<le> of_int (round_half_even (a / q)) * q" by simp
  then show ?thesis by (simp add: round_magnitude_def Let_def q_def)
qed

lemma Math_abs_to_double: "Math_abs (to_double x) = to_double \<bar>x\<bar>"
proof (cases "x = 0")
  case True
  then show ?thesis by (simp add: to_double_def)
next
  case False
  then have "0 < \<bar>x\<bar>" by simp
  from round_magnitude_nonneg [OF this] False show ?thesis
    by (simp add: to_double_def Let_def)
qed

lemma difference_below_tolerance:
  assumes "to_double (6 / 100) = Finite (1080863910568919 / 2 ^ 54)"
  shows "js_less (Math_abs (js_subtract (Finite s) (Finite g))) (to_double (6 / 100))
    = (\<bar>s - g\<bar> < 17293822569102703 / 2 ^ 58)"
proof -
  have "Math_abs (js_subtract (Finite s) (Finite g)) = to_double \<bar>s - g\<bar>"
    by (simp add: js_subtract_def Math_abs_to_double)
  with to_double_below_tolerance [of "\<bar>s - g\<bar>"] assms show ?thesis by simp
qed

lemma to_double_six_hundredths: "to_double (6 / 100) = Finite (1080863910568919 / 2 ^ 54)"
proof -
  have "round_magnitude (6 / 100) = of_int 8646911284551352 * 2 powi (- 5 - 52)"
    by (rule round_magnitude_certificate) simp_all
  then show ?thesis by (simp add: to_double_def)
qed


text \<open>The doubles that occur in the examples below.\<close>

lemma to_double_value_1: "to_double (3 / 50) = Finite (1080863910568919 / 18014398509481984)"
proof -
  have "round_magnitude (3 / 50) = of_int 8646911284551352 * 2 powi (-5 - 52)"
    by (rule round_magnitude_certificate) simp_all
  then show ?thesis by (simp add: to_double_def)
qed

lemma to_double_value_2: "to_double (1080863910568919 / 18014398509481984) = Finite (1080863910568919 / 18014398509481984)"
proof -
  have "round_magnitude (1080863910568919 / 18014398509481984) = of_int 8646911284551352 * 2 powi (-5 - 52)"
    by (rule round_magnitude_certificate) simp_all
  then show ?thesis by (simp add: to_double_def)
qed

lemma to_double_value_3: "to_double (29 / 100) = Finite (5224175567749775 / 18014398509481984)"
proof -
  have "round_magnitude (29 / 100) = of_int 5224175567749775 * 2 powi (-2 - 52)"
    by (rule round_magnitude_certificate) simp_all
  then show ?thesis by (simp add: to_double_def)
qed

lemma to_double_value_4: "to_double (5224175567749775 / 18014398509481984) = Finite (5224175567749775 / 18014398509481984)"
proof -
  have "round_magnitude (5224175567749775 / 18014398509481984) = of_int 5224175567749775 * 2 powi (-2 - 52)"
    by (rule round_magnitude_certificate) simp_all
  then show ?thesis by (simp add: to_double_def)
qed

lemma to_double_value_5: "to_double (23 / 100) = Finite (8286623314361713 / 36028797018963968)"
proof -
  have "round_magnitude (23 / 100) = of_int 8286623314361713 * 2 powi (-3 - 52)"
    by (rule round_magnitude_certificate) simp_all
  then show ?thesis by (simp add: to_double_def)
qed

lemma to_double_value_6: "to_double (1 / 10) = Finite (3602879701896397 / 36028797018963968)"
proof -
  have "round_magnitude (1 / 10) = of_int 7205759403792794 * 2 powi (-4 - 52)"
    by (rule round_magnitude_certificate) simp_all
  then show ?thesis by (simp add: to_double_def)
qed

lemma to_double_value_7: "to_double (3602879701896397 / 36028797018963968) = Finite (3602879701896397 / 36028797018963968)"
proof -
  have "round_magnitude (3602879701896397 / 36028797018963968) = of_int 7205759403792794 * 2 powi (-4 - 52)"
    by (rule round_magnitude_certificate) simp_all
  then show ?thesis by (simp add: to_double_def)
qed

lemma to_double_value_8: "to_double (1 / 5) = Finite (3602879701896397 / 18014398509481984)"
proof -
  have "round_magnitude (1 / 5) = of_int 7205759403792794 * 2 powi (-3 - 52)"
    by (rule round_magnitude_certificate) simp_all
  then show ?thesis by (simp add: to_double_def)
qed

lemma to_double_value_9: "to_double (10808639105689191 / 36028797018963968) = Finite (1351079888211149 / 4503599627370496)"
proof -
  have "round_magnitude (10808639105689191 / 36028797018963968) = of_int (if even (5404319552844595::int) then 5404319552844595 else 5404319552844595 + 1) * 2 powi (-2 - 52)"
    by (rule round_magnitude_certificate_tie) simp_all
  then show ?thesis by (simp add: to_double_def)
qed

lemma to_double_value_10: "to_double (9 / 25) = Finite (3242591731706757 / 9007199254740992)"
proof -
  have "round_magnitude (9 / 25) = of_int 6485183463413514 * 2 powi (-2 - 52)"
    by (rule round_magnitude_certificate) simp_all
  then show ?thesis by (simp add: to_double_def)
qed

lemma to_double_value_11: "to_double (771 / 50) = Finite (8680688281756631 / 562949953421312)"
proof -
  have "round_magnitude (771 / 50) = of_int 8680688281756631 * 2 powi (3 - 52)"
    by (rule round_magnitude_certificate) simp_all
  then show ?thesis by (simp add: to_double_def)
qed

lemma to_double_value_12: "to_double (8680688281756631 / 562949953421312) = Finite (8680688281756631 / 562949953421312)"
proof -
  have "round_magnitude (8680688281756631 / 562949953421312) = of_int 8680688281756631 * 2 powi (3 - 52)"
    by (rule round_magnitude_certificate) simp_all
  then show ?thesis by (simp add: to_double_def)
qed

lemma to_double_value_13: "to_double (288 / 25) = Finite (3242591731706757 / 281474976710656)"
proof -
  have "round_magnitude (288 / 25) = of_int 6485183463413514 * 2 powi (3 - 52)"
    by (rule round_magnitude_certificate) simp_all
  then show ?thesis by (simp add: to_double_def)
qed

lemma to_double_value_14: "to_double (15165871745170145 / 562949953421312) = Finite (473933492036567 / 17592186044416)"
proof -
  have "round_magnitude (15165871745170145 / 562949953421312) = of_int (if even (7582935872585072::int) then 7582935872585072 else 7582935872585072 + 1) * 2 powi (4 - 52)"
    by (rule round_magnitude_certificate_tie) simp_all
  then show ?thesis by (simp add: to_double_def)
qed

lemma to_double_value_15: "to_double (10825527604291829 / 281474976710656) = Finite (2706381901072957 / 70368744177664)"
proof -
  have "round_magnitude (10825527604291829 / 281474976710656) = of_int (if even (5412763802145914::int) then 5412763802145914 else 5412763802145914 + 1) * 2 powi (5 - 52)"
    by (rule round_magnitude_certificate_tie) simp_all
  then show ?thesis by (simp add: to_double_def)
qed

lemma to_double_value_16: "to_double (192 / 5) = Finite (5404319552844595 / 140737488355328)"
proof -
  have "round_magnitude (192 / 5) = of_int 5404319552844595 * 2 powi (5 - 52)"
    by (rule round_magnitude_certificate) simp_all
  then show ?thesis by (simp add: to_double_def)
qed

lemma to_double_value_17: "to_double (1923 / 50) = Finite (5412763802145915 / 140737488355328)"
proof -
  have "round_magnitude (1923 / 50) = of_int 5412763802145915 * 2 powi (5 - 52)"
    by (rule round_magnitude_certificate) simp_all
  then show ?thesis by (simp add: to_double_def)
qed

lemma to_double_value_18: "to_double (5412763802145915 / 140737488355328) = Finite (5412763802145915 / 140737488355328)"
proof -
  have "round_magnitude (5412763802145915 / 140737488355328) = of_int 5412763802145915 * 2 powi (5 - 52)"
    by (rule round_magnitude_certificate) simp_all
  then show ?thesis by (simp add: to_double_def)
qed


lemmas to_double_values = to_double_value_1 to_double_value_2 to_double_value_3 to_double_value_4 to_double_value_5 to_double_value_6 to_double_value_7 to_double_value_8 to_double_value_9 to_double_value_10 to_double_value_11 to_double_value_12 to_double_value_13 to_double_value_14 to_double_value_15 to_double_value_16 to_double_value_17 to_double_value_18

section \<open>Properties of the results step\<close>

lemma match_needs_finite:
  assumes "js_less (Math_abs (js_subtract a b)) (Finite c)"
  obtains s g where "a = Finite s" and "b = Finite g"
  using assms by (cases a; cases b) (simp_all add: js_subtract_def)

lemma grandTotal_example_a:
  "grandTotal [owes ''Alice'' (29 / 100)] = Finite (5224175567749775 / 18014398509481984)"
  by (simp add: grandTotal_def parseFloat_def owes_def to_double_values)

lemma grandTotal_example_b:
  "grandTotal [owes ''Alice'' (1 / 10), owes ''Bob'' (2 / 10)]
   = Finite (1351079888211149 / 4503599627370496)"
  by (simp add: grandTotal_def parseFloat_def owes_def to_double_values)

lemma grandTotal_example_c:
  "grandTotal
     [owes ''Alice'' (1542 / 100), owes ''Bob'' (1152 / 100), owes ''Charlie'' (1152 / 100)]
   = Finite (2706381901072957 / 70368744177664)"
  by (simp add: grandTotal_def parseFloat_def owes_def to_double_values)

lemma grandTotal_example_d:
  "grandTotal [owes ''Alice'' (3846 / 100)] = Finite (5412763802145915 / 140737488355328)"
  by (simp add: grandTotal_def parseFloat_def owes_def to_double_values)

lemma grandTotal_six_hundredths:
  "grandTotal [owes ''Alice'' (3 / 50)] = Finite (1080863910568919 / 18014398509481984)"
  by (simp add: grandTotal_def parseFloat_def owes_def to_double_values)

lemma parseFloat_examples:
  "parseFloat (23 / 100) = Finite (8286623314361713 / 36028797018963968)"
  "parseFloat (36 / 100) = Finite (3242591731706757 / 9007199254740992)"
  "parseFloat (384 / 10) = Finite (5404319552844595 / 140737488355328)"
  "parseFloat 0 = Finite 0"
  by (simp_all add: parseFloat_def to_double_values) (simp add: to_double_def)


text \<open>
  Counterexample to C3 as it is stated: one participant owes 0.06 on a receipt whose grand
  total is 0. The difference is exactly the tolerance, which the specification counts as a
  match; the computed difference is the double 0.06 itself, which is not below 0.06, and
  the results step reports that the totals differ by that amount.
\<close>

theorem reconciliation_counterexample:
  "\<bar>sum_list (map total_owed [owes ''Alice'' (6 / 100)]) - grand_total zero_totals\<bar> \<le> 6 / 100
   \<and> validation (ResultsStep [owes ''Alice'' (6 / 100)] (Some zero_totals))
       = Some (TotalsDiffer (Finite (1080863910568919 / 2 ^ 54)))
   \<and> validation (ResultsStep [owes ''Alice'' (6 / 100)] (Some zero_totals)) \<noteq> Some TotalsMatch"
proof -
  have "\<bar>sum_list (map total_owed [owes ''Alice'' (6 / 100)]) - grand_total zero_totals\<bar> \<le> 6 / 100"
    by (simp add: owes_def zero_totals_def)
  moreover
  have "Math_abs (js_subtract (grandTotal [owes ''Alice'' (6 / 100)])
      (parseFloat (grand_total zero_totals))) = Finite (1080863910568919 / 2 ^ 54)"
    by (simp add: grandTotal_six_hundredths zero_totals_def parseFloat_examples js_subtract_def
        to_double_values)
  then have "validation (ResultsStep [owes ''Alice'' (6 / 100)] (Some zero_totals))
       = Some (TotalsDiffer (Finite (1080863910568919 / 2 ^ 54)))"
    by (simp add: ResultsStep_def Let_def to_double_values)
  ultimately show ?thesis by simp
qed

text \<open>
  C3, amended. The results step adds up what the participants owe in double arithmetic,
  from left to right, and, when the receipt's totals are there, compares the sum with the
  parsed grand total: the verdict is a match exactly when the computed absolute difference
  is below the double 0.06, and otherwise the computed difference is reported (the bound
  is exclusive, and a difference that is not finite never matches). For a finite sum
  \<open>s\<close> and grand total \<open>g\<close> that is the case exactly when \<open>\<bar>s - g\<bar>\<close> is below
  \<open>17293822569102703 / 2 ^ 58\<close>, the middle between the double 0.06 and the double before
  it. Either way, and also without totals, the card of every participant is shown.
\<close>

theorem reconciliation_strict_tolerance:
  "validation (ResultsStep costs (Some t)) =
     Some (if js_less (Math_abs (js_subtract (grandTotal costs) (parseFloat (grand_total t))))
                (Finite (1080863910568919 / 2 ^ 54))
           then TotalsMatch
           else TotalsDiffer
                  (Math_abs (js_subtract (grandTotal costs) (parseFloat (grand_total t)))))
   \<and> (grandTotal costs = Finite s \<and> parseFloat (grand_total t) = Finite g \<longrightarrow>
        (validation (ResultsStep costs (Some t)) = Some TotalsMatch)
          = (\<bar>s - g\<bar> < 17293822569102703 / 2 ^ 58))
   \<and> (validation (ResultsStep costs (Some t)) = Some TotalsMatch \<longrightarrow>
        (\<exists>s' g'. grandTotal costs = Finite s' \<and> parseFloat (grand_total t) = Finite g'))
   \<and> validation (ResultsStep costs None) = None
   \<and> sum_of_all_shares (ResultsStep costs tot)
       = foldl (\<lambda>sum c. js_add sum (to_double (total_owed c))) (Finite 0) costs
   \<and> cards (ResultsStep costs tot) = costs"
proof -
  let ?difference = "Math_abs (js_subtract (grandTotal costs) (parseFloat (grand_total t)))"
  let ?limit = "Finite (1080863910568919 / 2 ^ 54)"
  have verdict: "validation (ResultsStep costs (Some t)) =
      Some (if js_less ?difference ?limit then TotalsMatch else TotalsDiffer ?difference)"
    by (simp add: ResultsStep_def Let_def to_double_values)
  have finite: "(validation (ResultsStep costs (Some t)) = Some TotalsMatch)
      = (\<bar>s - g\<bar> < 17293822569102703 / 2 ^ 58)"
    if "grandTotal costs = Finite s \<and> parseFloat (grand_total t) = Finite g"
  proof -
    from that have "js_less ?difference ?limit = (\<bar>s - g\<bar> < 17293822569102703 / 2 ^ 58)"
      using difference_below_tolerance [OF to_double_six_hundredths, of s g]
      by (simp only: to_double_six_hundredths)
    with verdict show ?thesis by simp
  qed
  have needs: "\<exists>s' g'. grandTotal costs = Finite s' \<and> parseFloat (grand_total t) = Finite g'"
    if "validation (ResultsStep costs (Some t)) = Some TotalsMatch"
  proof -
    from that verdict have "js_less ?difference ?limit" by (simp split: if_splits)
    then show ?thesis by (rule match_needs_finite) blast
  qed
  have rest: "validation (ResultsStep costs None) = None"
    "sum_of_all_shares (ResultsStep costs tot)
       = foldl (\<lambda>sum c. js_add sum (to_double (total_owed c))) (Finite 0) costs"
    "cards (ResultsStep costs tot) = costs"
    by (simp_all add: ResultsStep_def grandTotal_def parseFloat_def)
  from verdict finite needs rest show ?thesis by blast
qed

theorem reconciliation_strict_tolerance_witness:
  "grandTotal [owes ''Alice'' (29 / 100)] = Finite (5224175567749775 / 18014398509481984)
   \<and> parseFloat (23 / 100) = Finite (8286623314361713 / 36028797018963968)
   \<and> validation (ResultsStep [owes ''Alice'' (29 / 100)] (Some (zero_totals\<lparr>grand_total := 23 / 100\<rparr>)))
       = Some TotalsMatch
   \<and> validation (ResultsStep [owes ''Alice'' (1 / 10), owes ''Bob'' (2 / 10)]
        (Some (zero_totals\<lparr>grand_total := 36 / 100\<rparr>))) = Some TotalsMatch
   \<and> validation (ResultsStep
        [owes ''Alice'' (1542 / 100), owes ''Bob'' (1152 / 100), owes ''Charlie'' (1152 / 100)]
        (Some scenario_totals)) = Some TotalsMatch
   \<and> validation (ResultsStep [owes ''Alice'' (3846 / 100)] (Some scenario_totals))
       \<noteq> Some TotalsMatch"
proof -
  note rule = reconciliation_strict_tolerance [THEN conjunct2, THEN conjunct1, rule_format]
  have ga: "grand_total (zero_totals\<lparr>grand_total := 23 / 100\<rparr>) = 23 / 100"
    and gb: "grand_total (zero_totals\<lparr>grand_total := 36 / 100\<rparr>) = 36 / 100"
    and gc: "grand_total scenario_totals = 384 / 10"
    by (simp_all add: scenario_totals_def)
  have a: "validation (ResultsStep [owes ''Alice'' (29 / 100)]
      (Some (zero_totals\<lparr>grand_total := 23 / 100\<rparr>))) = Some TotalsMatch"
    using rule [of "[owes ''Alice'' (29 / 100)]" _ "zero_totals\<lparr>grand_total := 23 / 100\<rparr>",
        OF conjI, OF grandTotal_example_a]
    by (simp only: ga parseFloat_examples) simp
  have b: "validation (ResultsStep [owes ''Alice'' (1 / 10), owes ''Bob'' (2 / 10)]
        (Some (zero_totals\<lparr>grand_total := 36 / 100\<rparr>))) = Some TotalsMatch"
    using rule [of "[owes ''Alice'' (1 / 10), owes ''Bob'' (2 / 10)]" _
        "zero_totals\<lparr>grand_total := 36 / 100\<rparr>", OF conjI, OF grandTotal_example_b]
    by (simp only: gb parseFloat_examples) simp
  have c: "validation (ResultsStep
        [owes ''Alice'' (1542 / 100), owes ''Bob'' (1152 / 100), owes ''Charlie'' (1152 / 100)]
        (Some scenario_totals)) = Some TotalsMatch"
    using rule [of "[owes ''Alice'' (1542 / 100), owes ''Bob'' (1152 / 100),
        owes ''Charlie'' (1152 / 100)]" _ scenario_totals, OF conjI, OF grandTotal_example_c]
    by (simp only: gc parseFloat_examples) simp
  have d: "validation (ResultsStep [owes ''Alice'' (3846 / 100)] (Some scenario_totals))
       \<noteq> Some TotalsMatch"
    using rule [of "[owes ''Alice'' (3846 / 100)]" _ scenario_totals, OF conjI,
        OF grandTotal_example_d]
    by (simp only: gc parseFloat_examples) simp
  from a b c d grandTotal_example_a parseFloat_examples(1) show ?thesis by (intro conjI)
qed

section \<open>Properties of the schema\<close>

lemma and_then_Inr:
  "(and_then m f = Inr b) = (\<exists>a. m = Inr a \<and> f a = Inr b)"
  by (cases m) (simp_all add: and_then_def)

lemma check_Inr: "(check c holds = Inr u) = holds"
  by (simp add: check_def)

lemma insert_receipt_row:
  assumes "execute (InsertReceipt now vid vsub vtax vtip vfees vgrand vcreated) db = Inr db'"
  shows "\<exists>r. db' = db\<lparr>receipts := receipts db @ [r]\<rparr>
    \<and> receipts_grand_total r =
        receipts_subtotal r + receipts_tax_total r + receipts_tip_total r + receipts_fees_total r"
  using assms by (auto simp: and_then_Inr check_Inr split: if_splits)

lemma insert_assignment_row:
  assumes "execute (InsertAssignment vitem vparticipant vfraction) db = Inr db'"
  shows "\<exists>a. db' = db\<lparr>assignments_table := assignments_table db @ [a]\<rparr>
    \<and> 0 \<le> assignments_fraction a \<and> assignments_fraction a \<le> 1"
  using assms by (auto simp: and_then_Inr check_Inr split: if_splits)

lemma insert_participant_row:
  assumes "execute (InsertParticipant now uuid vid vreceipt vname vcreated) db = Inr db'"
  shows "\<exists>p. db' = db\<lparr>participants_table := participants_table db @ [p]\<rparr>"
  using assms by (auto simp: and_then_Inr check_Inr split: if_splits)

lemma insert_item_row:
  assumes "execute (InsertItem now uuid vid vreceipt vname vqty vprice vline vconf vcreated) db
    = Inr db'"
  shows "\<exists>i. db' = db\<lparr>receipt_items := receipt_items db @ [i]\<rparr>"
  using assms by (auto simp: and_then_Inr check_Inr split: if_splits)

lemma schema_invariant_execute:
  assumes "schema_invariant db" and "execute stmt db = Inr db'"
  shows "schema_invariant db'"
proof (cases stmt)
  case (InsertReceipt now vid vsub vtax vtip vfees vgrand vcreated)
  with assms(2) insert_receipt_row obtain r where "db' = db\<lparr>receipts := receipts db @ [r]\<rparr>"
    and "receipts_grand_total r =
        receipts_subtotal r + receipts_tax_total r + receipts_tip_total r + receipts_fees_total r"
    by blast
  with assms(1) show ?thesis by (auto simp: schema_invariant_def)
next
  case (InsertParticipant now uuid vid vreceipt vname vcreated)
  with assms(2) insert_participant_row obtain p
    where "db' = db\<lparr>participants_table := participants_table db @ [p]\<rparr>" by blast
  with assms(1) show ?thesis by (simp add: schema_invariant_def)
next
  case (InsertItem now uuid vid vreceipt vname vqty vprice vline vconf vcreated)
  with assms(2) insert_item_row obtain i
    where "db' = db\<lparr>receipt_items := receipt_items db @ [i]\<rparr>" by blast
  with assms(1) show ?thesis by (simp add: schema_invariant_def)
next
  case (InsertAssignment vitem vparticipant vfraction)
  with assms(2) insert_assignment_row obtain a
    where "db' = db\<lparr>assignments_table := assignments_table db @ [a]\<rparr>"
    and "0 \<le> assignments_fraction a \<and> assignments_fraction a \<le> 1" by blast
  with assms(1) show ?thesis by (auto simp: schema_invariant_def)
qed

lemma schema_invariant_execute_all:
  "schema_invariant db \<Longrightarrow> schema_invariant (execute_all db stmts)"
proof (induction stmts arbitrary: db)
  case Nil
  then show ?case by simp
next
  case (Cons stmt stmts)
  show ?case
  proof (cases "execute stmt db")
    case (Inl e)
    with Cons show ?thesis by simp
  next
    case (Inr db')
    with Cons.prems have "schema_invariant db'" by (simp add: schema_invariant_execute)
    with Cons.IH Inr show ?thesis by simp
  qed
qed

lemma schema_invariant_empty: "schema_invariant empty_database"
  by (simp add: schema_invariant_def empty_database_def)


lemma round_half_away_of_int: "round_half_away (of_int k) = k"
proof (cases "0 \<le> k")
  case True
  have "\<lfloor>(of_int k :: rat) + 1 / 2\<rfloor> = k" by (rule floor_unique) simp_all
  with True show ?thesis by (simp add: round_half_away_def)
next
  case False
  have "\<lfloor>(of_int (- k) :: rat) + 1 / 2\<rfloor> = - k" by (rule floor_unique) simp_all
  with False show ?thesis by (simp add: round_half_away_def)
qed

lemma round_half_away_numeral [simp]:
  "round_half_away (numeral n) = numeral n" "round_half_away 0 = 0" "round_half_away 1 = 1"
  using round_half_away_of_int [of "numeral n"] round_half_away_of_int [of 0]
    round_half_away_of_int [of 1]
  by simp_all

lemma numeric_examples:
  "numeric 12 2 c 30 = Inr 30" "numeric 12 2 c (24 / 10) = Inr (24 / 10)"
  "numeric 12 2 c 6 = Inr 6" "numeric 12 2 c 0 = Inr 0"
  "numeric 12 2 c (384 / 10) = Inr (384 / 10)" "numeric 12 2 c (3841 / 100) = Inr (3841 / 100)"
  "numeric 12 2 c 18 = Inr 18" "numeric 10 3 c 1 = Inr 1"
  "numeric 6 5 c (1 / 2) = Inr (1 / 2)" "numeric 6 5 c (3 / 2) = Inr (3 / 2)"
  "numeric 12 2 c (12 / 5) = Inr (12 / 5)" "numeric 12 2 c (192 / 5) = Inr (192 / 5)"
  by (simp_all add: numeric_def Let_def)

lemma not_null_value [simp]: "not_null col dflt (Sql_value a) = Inr a"
  by (simp add: not_null_def)

lemma not_null_default [simp]: "not_null col (Some a) Sql_default = Inr a"
  by (simp add: not_null_def)

lemma and_then_Inr_simp [simp]: "and_then (Inr a) f = f a"
  by (simp add: and_then_def)

lemma and_then_Inl_simp [simp]: "and_then (Inl e) f = Inl e"
  by (simp add: and_then_def)

lemma check_simps [simp]:
  "check c True = Inr ()" "check c False = Inl (CheckViolation c)"
  by (simp_all add: check_def)

lemma inconsistent_total_rejected:
  "execute (InsertReceipt 2 (Sql_value (js ''t2'')) (Sql_value 30) (Sql_value (24 / 10)) (Sql_value 6)
        Sql_default (Sql_value (3841 / 100)) Sql_default) db
   = Inl (CheckViolation ''receipts_total_consistency'')"
  by (simp add: numeric_examples)

lemma fraction_above_one_rejected:
  "execute (InsertAssignment (Sql_value 200) (Sql_value 100) (Sql_value (3 / 2))) db
   = Inl (CheckViolation ''assignments_fraction_check'')"
  by (simp add: numeric_examples)

lemma scenario_script_result: "execute_all empty_database scenario_script = scenario_database"
  by (simp add: scenario_script_def empty_database_def numeric_examples nullable_def
      scenario_database_def scenario_receipt_def scenario_assignment_def)

text \<open>
  C8. Whatever statements have run against the empty database, every stored receipt has
  its grand total equal to the sum of subtotal, tax, tip and fees, and every stored
  assignment has its fraction between 0 and 1: an insert into either table succeeds only
  with a row that passes the table's checks, and a row is stored only by an insert that
  succeeds.
\<close>

theorem stored_rows_satisfy_checks:
  "(\<forall>r \<in> set (receipts (execute_all empty_database stmts)).
      receipts_grand_total r =
        receipts_subtotal r + receipts_tax_total r + receipts_tip_total r + receipts_fees_total r)
   \<and> (\<forall>a \<in> set (assignments_table (execute_all empty_database stmts)).
        0 \<le> assignments_fraction a \<and> assignments_fraction a \<le> 1)
   \<and> (execute (InsertReceipt now vid vsub vtax vtip vfees vgrand vcreated) db = Inr db' \<longrightarrow>
        (\<exists>r. db' = db\<lparr>receipts := receipts db @ [r]\<rparr>
          \<and> receipts_grand_total r =
              receipts_subtotal r + receipts_tax_total r + receipts_tip_total r
                + receipts_fees_total r))
   \<and> (execute (InsertAssignment vitem vparticipant vfraction) db = Inr db'' \<longrightarrow>
        (\<exists>a. db'' = db\<lparr>assignments_table := assignments_table db @ [a]\<rparr>
          \<and> 0 \<le> assignments_fraction a \<and> assignments_fraction a \<le> 1))"
proof -
  have "schema_invariant (execute_all empty_database stmts)"
    by (rule schema_invariant_execute_all [OF schema_invariant_empty])
  then show ?thesis
    using insert_receipt_row [of now vid vsub vtax vtip vfees vgrand vcreated db db']
      insert_assignment_row [of vitem vparticipant vfraction db db'']
    by (simp add: schema_invariant_def)
qed

theorem stored_rows_satisfy_checks_witness:
  "receipts (execute_all empty_database scenario_script) = [scenario_receipt]
   \<and> receipts_grand_total scenario_receipt =
        receipts_subtotal scenario_receipt + receipts_tax_total scenario_receipt
          + receipts_tip_total scenario_receipt + receipts_fees_total scenario_receipt
   \<and> assignments_table (execute_all empty_database scenario_script) = [scenario_assignment]
   \<and> 0 \<le> assignments_fraction scenario_assignment
   \<and> assignments_fraction scenario_assignment \<le> 1
   \<and> execute (InsertReceipt 2 (Sql_value (js ''t2'')) (Sql_value 30) (Sql_value (24 / 10))
        (Sql_value 6) Sql_default (Sql_value (3841 / 100)) Sql_default) scenario_database
       = Inl (CheckViolation ''receipts_total_consistency'')
   \<and> execute (InsertAssignment (Sql_value 200) (Sql_value 100) (Sql_value (3 / 2)))
        scenario_database = Inl (CheckViolation ''assignments_fraction_check'')"
proof -
  have stored: "receipts (execute_all empty_database scenario_script) = [scenario_receipt]"
    "assignments_table (execute_all empty_database scenario_script) = [scenario_assignment]"
    by (simp_all add: scenario_script_result scenario_database_def)
  from stored_rows_satisfy_checks [of scenario_script, THEN conjunct1]
  have total: "receipts_grand_total scenario_receipt =
        receipts_subtotal scenario_receipt + receipts_tax_total scenario_receipt
          + receipts_tip_total scenario_receipt + receipts_fees_total scenario_receipt"
    by (simp only: stored list.set ball_simps)
  from stored_rows_satisfy_checks [of scenario_script, THEN conjunct2, THEN conjunct1]
  have fraction: "0 \<le> assignments_fraction scenario_assignment"
    "assignments_fraction scenario_assignment \<le> 1"
    by (simp_all only: stored list.set ball_simps)
  note rejected = inconsistent_total_rejected [of scenario_database]
    fraction_above_one_rejected [of scenario_database]
  show ?thesis
    by (intro conjI; (rule stored total fraction rejected))
qed

end
